theory Spec2Isabelle
  imports Main "HOL-Library.Sublist"
begin

section \<open>RedirFS path registry and rename propagation (rfs\_path.c)\<close>

text \<open>
  A shallow embedding of \<^verbatim>\<open>src/redirfs/rfs_path.c\<close>. Pointers are natural numbers with
  \<open>0\<close> for \<^verbatim>\<open>NULL\<close>; a function returning a pointer or \<^verbatim>\<open>ERR_PTR(e)\<close> returns a sum
  with \<open>Inl e\<close> for the error. The objects of type \<^verbatim>\<open>struct rfs_path\<close> live in a store
  indexed by address, since the registry list, the handles given to callers and the
  arrays of \<^verbatim>\<open>redirfs_get_paths\<close> alias them. Execution is sequential: the two mutexes
  are not modelled. Reference counts of objects owned by other files (chains, roots,
  inode and dentry records, mounts) are not modelled either; the count of
  \<^verbatim>\<open>struct rfs_path\<close> is.
\<close>

subsection \<open>Constants of the headers\<close>

abbreviation (input) ENOENT :: int where "ENOENT \<equiv> 2"
abbreviation (input) ENOMEM :: int where "ENOMEM \<equiv> 12"
abbreviation (input) EBUSY :: int where "EBUSY \<equiv> 16"
abbreviation (input) EEXIST :: int where "EEXIST \<equiv> 17"
abbreviation (input) EINVAL :: int where "EINVAL \<equiv> 22"
abbreviation (input) INT_MAX :: int where "INT_MAX \<equiv> 2147483647"

text \<open>The two flag values of \<^verbatim>\<open>redirfs.h\<close> (not among the sources at hand): distinct and non-zero.\<close>

abbreviation (input) REDIRFS_PATH_INCLUDE :: int where "REDIRFS_PATH_INCLUDE \<equiv> 1"
abbreviation (input) REDIRFS_PATH_EXCLUDE :: int where "REDIRFS_PATH_EXCLUDE \<equiv> 2"

subsection \<open>Structures\<close>

text \<open>A chain is the list of its filters, in order; the empty list is the \<^verbatim>\<open>NULL\<close> chain.\<close>

type_synonym chain = "nat list"

record rfs_path =
  rpath_id :: int
  rpath_mnt :: nat
  rpath_dentry :: nat
  rpath_rinch :: chain
  rpath_rexch :: chain
  rpath_rroot :: nat
  rpath_count :: int

record redirfs_path_info =
  info_dentry :: nat
  info_mnt :: nat
  info_flags :: int

record rfs_info =
  rinfo_rchain :: chain
  rinfo_rroot :: nat

record rfs_root =
  rroot_dentry :: nat
  rroot_rinfo :: rfs_info
  rroot_rinch :: chain
  rroot_rexch :: chain
  rroot_rpaths :: "nat list"
  rroot_paths_nr :: int

subsection \<open>Collaborators\<close>

text \<open>
  The functions of \<^verbatim>\<open>rfs_root.c\<close>, \<^verbatim>\<open>rfs_info.c\<close> and \<^verbatim>\<open>rfs_dcache.c\<close> that change state
  outside this file: the roots, the records of inodes and dentries. Each call is
  appended to the log \<open>calls\<close> of the state; what it returns is given by the world, as a
  function of the log so far and of the call, so that a collaborator may answer
  differently each time. The arguments are those of the C call, an \<^verbatim>\<open>rfs_info\<close> being
  given by the root and the chain it was allocated from. The collaborators are taken
  not to write the list, the path objects or the counters of this file.
\<close>

datatype call =
    C_root_add nat
  | C_root_add_rpath nat nat
  | C_root_rem_rpath nat nat
  | C_dcache_walk_add_dir nat
  | C_root_add_include nat nat
  | C_root_add_exclude nat nat
  | C_root_rem_include nat nat
  | C_root_rem_exclude nat nat
  | C_root_rem_flt nat nat
  | C_root_walk_rem_flt nat
  | C_root_add_flt nat nat
  | C_root_walk_add_flt nat
  | C_info_rem nat nat chain nat
  | C_info_set nat nat chain nat
  | C_info_add nat nat chain nat
  | C_info_reset nat nat

text \<open>
  The places that allocate. The world answers \<open>0\<close> when the allocation succeeds;
  for \<^verbatim>\<open>rfs_info_alloc\<close> any other answer is the error it returns, for \<^verbatim>\<open>kzalloc\<close> any
  other answer is a \<^verbatim>\<open>NULL\<close> result.
\<close>

datatype site = A_rpath | A_paths | A_chain_add | A_chain_rem | A_chain_diff | A_info

text \<open>
  The world also answers the lookups \<^verbatim>\<open>rfs_inode_find\<close> and \<^verbatim>\<open>rfs_dentry_find\<close> (the
  \<^verbatim>\<open>rinfo\<close> of the record found, \<open>None\<close> for \<^verbatim>\<open>NULL\<close>), gives the fields of a root, and the
  inode and the superblock root of a dentry; what the lookups and the roots hold may
  change with the calls made.
\<close>

record world =
  w_ret :: "call list \<Rightarrow> call \<Rightarrow> int"
  w_alloc :: "call list \<Rightarrow> site \<Rightarrow> int"
  w_inode_find :: "call list \<Rightarrow> nat \<Rightarrow> rfs_info option"
  w_dentry_find :: "call list \<Rightarrow> nat \<Rightarrow> rfs_info option"
  w_root :: "call list \<Rightarrow> nat \<Rightarrow> rfs_root"
  w_d_inode :: "nat \<Rightarrow> nat"
  w_sb_root :: "nat \<Rightarrow> nat"

text \<open>
  The state of this file: the list \<^verbatim>\<open>rfs_path_list\<close> (addresses, head first), the store
  of path objects, the next address \<^verbatim>\<open>kzalloc\<close> hands out, the counter \<^verbatim>\<open>paths_nr\<close> of
  every filter, the log of collaborator calls, and whether a \<^verbatim>\<open>BUG_ON\<close> has fired.
  The ids, the reference counts and the counters are C ints; they stay far below
  \<^verbatim>\<open>INT_MAX\<close> (no more than the number of path objects and of references), and the
  model takes them as unbounded integers.
\<close>

record state =
  rfs_path_list :: "nat list"
  mem :: "nat \<Rightarrow> rfs_path"
  brk :: nat
  paths_nr :: "nat \<Rightarrow> int"
  calls :: "call list"
  bug :: bool

definition ext_call :: "world \<Rightarrow> call \<Rightarrow> state \<Rightarrow> int \<times> state" where
  "ext_call w c s = (w_ret w (calls s) c, s\<lparr>calls := calls s @ [c]\<rparr>)"

definition kalloc :: "world \<Rightarrow> state \<Rightarrow> site \<Rightarrow> int" where
  "kalloc w s a = w_alloc w (calls s) a"

definition zeroed :: rfs_path where
  "zeroed = \<lparr>rpath_id = 0, rpath_mnt = 0, rpath_dentry = 0, rpath_rinch = [],
     rpath_rexch = [], rpath_rroot = 0, rpath_count = 0\<rparr>"

definition init_state :: state where
  "init_state = \<lparr>rfs_path_list = [], mem = (\<lambda>_. zeroed), brk = 1,
     paths_nr = (\<lambda>_. 0), calls = [], bug = False\<rparr>"

subsection \<open>Filter chains\<close>

text \<open>
  Modelled from the spec: \<^verbatim>\<open>rfs_chain_find\<close>, \<^verbatim>\<open>rfs_chain_add\<close>, \<^verbatim>\<open>rfs_chain_rem\<close> and
  \<^verbatim>\<open>rfs_chain_diff\<close> are defined in \<^verbatim>\<open>rfs_chain.c\<close>, which is not among the sources at hand. The spec
  (section 4.1): \<open>find\<close> gives the index or not-found (here \<open>-1\<close>, the value the callers
  compare with); \<open>add\<close> appends at the tail and fails with OutOfMemory; \<open>remove\<close> fails
  with NotFound when the filter is absent and gives the empty value when the last
  filter goes; \<open>diff\<close> keeps the members of the first chain that are not in the second,
  in the order of the first. Building a non-empty chain allocates.
\<close>

fun rfs_chain_find :: "chain \<Rightarrow> nat \<Rightarrow> int" where
  "rfs_chain_find [] f = - 1"
| "rfs_chain_find (x # xs) f =
     (if x = f then 0
      else (let r = rfs_chain_find xs f in if r = - 1 then - 1 else r + 1))"

definition rfs_chain_add :: "world \<Rightarrow> state \<Rightarrow> chain \<Rightarrow> nat \<Rightarrow> int + chain" where
  "rfs_chain_add w s c f =
     (if kalloc w s A_chain_add \<noteq> 0 then Inl (- ENOMEM) else Inr (c @ [f]))"

definition rfs_chain_rem :: "world \<Rightarrow> state \<Rightarrow> chain \<Rightarrow> nat \<Rightarrow> int + chain" where
  "rfs_chain_rem w s c f =
     (if rfs_chain_find c f = - 1 then Inl (- ENOENT)
      else if remove1 f c = [] then Inr []
      else if kalloc w s A_chain_rem \<noteq> 0 then Inl (- ENOMEM)
      else Inr (remove1 f c))"

definition rfs_chain_diff :: "world \<Rightarrow> state \<Rightarrow> chain \<Rightarrow> chain \<Rightarrow> int + chain" where
  "rfs_chain_diff w s a b =
     (let d = filter (\<lambda>f. rfs_chain_find b f = - 1) a in
      if d = [] then Inr []
      else if kalloc w s A_chain_diff \<noteq> 0 then Inl (- ENOMEM)
      else Inr d)"

subsection \<open>Path objects and the registry list\<close>

definition rfs_path_alloc :: "world \<Rightarrow> state \<Rightarrow> nat \<Rightarrow> nat \<Rightarrow> (int + nat) \<times> state" where
  "rfs_path_alloc w s mnt dentry =
     (if kalloc w s A_rpath \<noteq> 0 then (Inl (- ENOMEM), s)
      else (Inr (brk s),
            s\<lparr>mem := (mem s)(brk s := zeroed\<lparr>rpath_mnt := mnt, rpath_dentry := dentry,
                                             rpath_count := 1\<rparr>),
              brk := brk s + 1\<rparr>))"

definition rfs_path_get :: "state \<Rightarrow> nat \<Rightarrow> state" where
  "rfs_path_get s rpath =
     (if rpath = 0 then s
      else if rpath_count (mem s rpath) = 0 then s\<lparr>bug := True\<rparr>
      else s\<lparr>mem := (mem s)(rpath := (mem s rpath)\<lparr>rpath_count := rpath_count (mem s rpath) + 1\<rparr>)\<rparr>)"

text \<open>The object whose count reaches zero is freed: nothing reads it afterwards.\<close>

definition rfs_path_put :: "state \<Rightarrow> nat \<Rightarrow> state" where
  "rfs_path_put s rpath =
     (if rpath = 0 then s
      else if rpath_count (mem s rpath) = 0 then s\<lparr>bug := True\<rparr>
      else s\<lparr>mem := (mem s)(rpath := (mem s rpath)\<lparr>rpath_count := rpath_count (mem s rpath) - 1\<rparr>)\<rparr>)"

fun path_list_find :: "(nat \<Rightarrow> rfs_path) \<Rightarrow> nat list \<Rightarrow> nat \<Rightarrow> nat \<Rightarrow> nat" where
  "path_list_find m [] mnt dentry = 0"
| "path_list_find m (rpath # rest) mnt dentry =
     (if rpath_mnt (m rpath) \<noteq> mnt then path_list_find m rest mnt dentry
      else if rpath_dentry (m rpath) \<noteq> dentry then path_list_find m rest mnt dentry
      else rpath)"

definition rfs_path_find :: "state \<Rightarrow> nat \<Rightarrow> nat \<Rightarrow> nat \<times> state" where
  "rfs_path_find s mnt dentry =
     (let found = path_list_find (mem s) (rfs_path_list s) mnt dentry
      in (found, rfs_path_get s found))"

fun path_list_find_id :: "(nat \<Rightarrow> rfs_path) \<Rightarrow> nat list \<Rightarrow> int \<Rightarrow> nat" where
  "path_list_find_id m [] i = 0"
| "path_list_find_id m (rpath # rest) i =
     (if rpath_id (m rpath) \<noteq> i then path_list_find_id m rest i else rpath)"

definition rfs_path_find_id :: "state \<Rightarrow> int \<Rightarrow> nat \<times> state" where
  "rfs_path_find_id s i =
     (let found = path_list_find_id (mem s) (rfs_path_list s) i
      in (found, rfs_path_get s found))"

text \<open>
  \<^verbatim>\<open>rfs_root_add\<close> returns a root or \<^verbatim>\<open>ERR_PTR\<close>: a negative answer of the world is the
  error, any other answer is the address of the root.
\<close>

definition rfs_path_add_rroot :: "world \<Rightarrow> state \<Rightarrow> nat \<Rightarrow> int \<times> state" where
  "rfs_path_add_rroot w s rpath =
     (case ext_call w (C_root_add (rpath_dentry (mem s rpath))) s of (r, s1) \<Rightarrow>
        if r < 0 then (r, s1)
        else (case ext_call w (C_root_add_rpath (nat r) rpath) s1 of (_, s2) \<Rightarrow>
          (0, s2\<lparr>mem := (mem s2)(rpath := (mem s2 rpath)\<lparr>rpath_rroot := nat r\<rparr>)\<rparr>)))"

definition rfs_path_rem_rroot :: "world \<Rightarrow> state \<Rightarrow> nat \<Rightarrow> state" where
  "rfs_path_rem_rroot w s rpath =
     (case ext_call w (C_root_rem_rpath (rpath_rroot (mem s rpath)) rpath) s of (_, s1) \<Rightarrow>
        s1\<lparr>mem := (mem s1)(rpath := (mem s1 rpath)\<lparr>rpath_rroot := 0\<rparr>)\<rparr>)"

definition rfs_path_list_add :: "state \<Rightarrow> nat \<Rightarrow> state" where
  "rfs_path_list_add s rpath =
     rfs_path_get (s\<lparr>rfs_path_list := rfs_path_list s @ [rpath]\<rparr>) rpath"

definition rfs_path_list_rem :: "state \<Rightarrow> nat \<Rightarrow> state" where
  "rfs_path_list_rem s rpath =
     rfs_path_put (s\<lparr>rfs_path_list := remove1 rpath (rfs_path_list s)\<rparr>) rpath"

text \<open>
  The body of the \<^verbatim>\<open>while\<close> loop of \<^verbatim>\<open>rfs_path_get_id\<close> walks the list once and returns:
  the \<^verbatim>\<open>continue\<close> belongs to the inner \<^verbatim>\<open>list_for_each_entry\<close>.
\<close>

fun path_list_scan_id :: "(nat \<Rightarrow> rfs_path) \<Rightarrow> nat list \<Rightarrow> int \<Rightarrow> int" where
  "path_list_scan_id m [] i = i"
| "path_list_scan_id m (rpath # rest) i =
     path_list_scan_id m rest (if rpath_id (m rpath) = i then i + 1 else i)"

definition rfs_path_get_id :: "state \<Rightarrow> int" where
  "rfs_path_get_id s =
     (if 0 < INT_MAX then path_list_scan_id (mem s) (rfs_path_list s) 0 else - 1)"

definition rfs_path_add :: "world \<Rightarrow> state \<Rightarrow> nat \<Rightarrow> nat \<Rightarrow> (int + nat) \<times> state" where
  "rfs_path_add w s mnt dentry =
     (case rfs_path_find s mnt dentry of (found, s1) \<Rightarrow>
        if found \<noteq> 0 then (Inr found, s1)
        else (let i = rfs_path_get_id s1 in
          if i < 0 then (Inl (- EBUSY), s1)
          else (case rfs_path_alloc w s1 mnt dentry of
              (Inl e, s2) \<Rightarrow> (Inl e, s2)
            | (Inr rpath, s2) \<Rightarrow>
                (let s3 = s2\<lparr>mem := (mem s2)(rpath := (mem s2 rpath)\<lparr>rpath_id := i\<rparr>)\<rparr> in
                 case rfs_path_add_rroot w s3 rpath of (rv, s4) \<Rightarrow>
                   if rv \<noteq> 0 then (Inl rv, rfs_path_put s4 rpath)
                   else (Inr rpath, rfs_path_list_add s4 rpath)))))"

definition rfs_path_rem :: "world \<Rightarrow> state \<Rightarrow> nat \<Rightarrow> state" where
  "rfs_path_rem w s rpath =
     (if rpath_rinch (mem s rpath) \<noteq> [] \<or> rpath_rexch (mem s rpath) \<noteq> [] then s
      else rfs_path_list_rem (rfs_path_rem_rroot w s rpath) rpath)"

definition rfs_path_add_dirs :: "world \<Rightarrow> state \<Rightarrow> nat \<Rightarrow> int \<times> state" where
  "rfs_path_add_dirs w s dentry =
     (case w_inode_find w (calls s) (w_d_inode w dentry) of
        Some rinode \<Rightarrow> (0, s)
      | None \<Rightarrow> ext_call w (C_dcache_walk_add_dir dentry) s)"

definition set_rinch :: "state \<Rightarrow> nat \<Rightarrow> chain \<Rightarrow> state" where
  "set_rinch s rpath c = s\<lparr>mem := (mem s)(rpath := (mem s rpath)\<lparr>rpath_rinch := c\<rparr>)\<rparr>"

definition set_rexch :: "state \<Rightarrow> nat \<Rightarrow> chain \<Rightarrow> state" where
  "set_rexch s rpath c = s\<lparr>mem := (mem s)(rpath := (mem s rpath)\<lparr>rpath_rexch := c\<rparr>)\<rparr>"

definition add_paths_nr :: "state \<Rightarrow> nat \<Rightarrow> int \<Rightarrow> state" where
  "add_paths_nr s rflt d = s\<lparr>paths_nr := (paths_nr s)(rflt := paths_nr s rflt + d)\<rparr>"

definition rfs_path_add_include :: "world \<Rightarrow> state \<Rightarrow> nat \<Rightarrow> nat \<Rightarrow> int \<times> state" where
  "rfs_path_add_include w s rpath rflt =
     (if rfs_chain_find (rpath_rinch (mem s rpath)) rflt \<noteq> - 1 then (0, s)
      else if rfs_chain_find (rpath_rexch (mem s rpath)) rflt \<noteq> - 1 then (- EEXIST, s)
      else (case rfs_path_add_dirs w s (w_sb_root w (rpath_dentry (mem s rpath))) of (rv, s1) \<Rightarrow>
        if rv \<noteq> 0 then (rv, s1)
        else (case rfs_chain_add w s1 (rpath_rinch (mem s1 rpath)) rflt of
            Inl e \<Rightarrow> (e, s1)
          | Inr rinch \<Rightarrow>
              (case ext_call w (C_root_add_include (rpath_rroot (mem s1 rpath)) rflt) s1 of
                 (rv, s2) \<Rightarrow>
                   if rv \<noteq> 0 then (rv, s2)
                   else (0, add_paths_nr (set_rinch s2 rpath rinch) rflt 1)))))"

definition rfs_path_add_exclude :: "world \<Rightarrow> state \<Rightarrow> nat \<Rightarrow> nat \<Rightarrow> int \<times> state" where
  "rfs_path_add_exclude w s rpath rflt =
     (if rfs_chain_find (rpath_rexch (mem s rpath)) rflt \<noteq> - 1 then (0, s)
      else if rfs_chain_find (rpath_rinch (mem s rpath)) rflt \<noteq> - 1 then (- EEXIST, s)
      else (case rfs_chain_add w s (rpath_rexch (mem s rpath)) rflt of
          Inl e \<Rightarrow> (e, s)
        | Inr rexch \<Rightarrow>
            (case ext_call w (C_root_add_exclude (rpath_rroot (mem s rpath)) rflt) s of
               (rv, s1) \<Rightarrow>
                 if rv \<noteq> 0 then (rv, s1)
                 else (0, add_paths_nr (set_rexch s1 rpath rexch) rflt 1))))"

definition rfs_path_rem_include :: "world \<Rightarrow> state \<Rightarrow> nat \<Rightarrow> nat \<Rightarrow> int \<times> state" where
  "rfs_path_rem_include w s rpath rflt =
     (if rfs_chain_find (rpath_rinch (mem s rpath)) rflt = - 1 then (0, s)
      else (case rfs_chain_rem w s (rpath_rinch (mem s rpath)) rflt of
          Inl e \<Rightarrow> (e, s)
        | Inr rinch \<Rightarrow>
            (case ext_call w (C_root_rem_include (rpath_rroot (mem s rpath)) rflt) s of
               (rv, s1) \<Rightarrow>
                 if rv \<noteq> 0 then (rv, s1)
                 else (0, add_paths_nr (set_rinch s1 rpath rinch) rflt (- 1)))))"

definition rfs_path_rem_exclude :: "world \<Rightarrow> state \<Rightarrow> nat \<Rightarrow> nat \<Rightarrow> int \<times> state" where
  "rfs_path_rem_exclude w s rpath rflt =
     (if rfs_chain_find (rpath_rexch (mem s rpath)) rflt = - 1 then (0, s)
      else (case rfs_chain_rem w s (rpath_rexch (mem s rpath)) rflt of
          Inl e \<Rightarrow> (e, s)
        | Inr rexch \<Rightarrow>
            (case ext_call w (C_root_rem_exclude (rpath_rroot (mem s rpath)) rflt) s of
               (rv, s1) \<Rightarrow>
                 if rv \<noteq> 0 then (rv, s1)
                 else (0, add_paths_nr (set_rexch s1 rpath rexch) rflt (- 1)))))"

subsection \<open>The registration interface\<close>

text \<open>
  Reading through a \<^verbatim>\<open>NULL\<close> pointer is a fault, which ends the call: nothing is
  returned.
\<close>

datatype fault = NULL_deref

text \<open>
  \<^verbatim>\<open>info\<close> is a pointer: \<open>None\<close> is \<^verbatim>\<open>NULL\<close>. The result is the handle, or the error of
  \<^verbatim>\<open>ERR_PTR\<close>.
\<close>

definition redirfs_add_path ::
  "world \<Rightarrow> state \<Rightarrow> nat \<Rightarrow> redirfs_path_info option \<Rightarrow> (int + nat) \<times> state" where
  "redirfs_add_path w s flt info =
     (case info of
        None \<Rightarrow> (Inl (- EINVAL), s)
      | Some pinfo \<Rightarrow>
          if flt = 0 then (Inl (- EINVAL), s)
          else if info_mnt pinfo = 0 \<or> info_dentry pinfo = 0 \<or> info_flags pinfo = 0
            then (Inl (- EINVAL), s)
          else (case rfs_path_add w s (info_mnt pinfo) (info_dentry pinfo) of
              (Inl e, s1) \<Rightarrow> (Inl e, s1)
            | (Inr rpath, s1) \<Rightarrow>
                (case (if info_flags pinfo = REDIRFS_PATH_INCLUDE
                         then rfs_path_add_include w s1 rpath flt
                       else if info_flags pinfo = REDIRFS_PATH_EXCLUDE
                         then rfs_path_add_exclude w s1 rpath flt
                       else (- EINVAL, s1)) of
                   (rv, s2) \<Rightarrow>
                     (let s3 = rfs_path_rem w s2 rpath in
                      if rv \<noteq> 0 then (Inl rv, rfs_path_put s3 rpath)
                      else (Inr rpath, s3)))))"


definition redirfs_rem_path :: "world \<Rightarrow> state \<Rightarrow> nat \<Rightarrow> nat \<Rightarrow> int \<times> state" where
  "redirfs_rem_path w s flt path =
     (if flt = 0 \<or> path = 0 then (- EINVAL, s)
      else (case (if rfs_chain_find (rpath_rinch (mem s path)) flt \<noteq> - 1
                    then rfs_path_rem_include w s path flt
                  else if rfs_chain_find (rpath_rexch (mem s path)) flt \<noteq> - 1
                    then rfs_path_rem_exclude w s path flt
                  else (- EINVAL, s)) of
          (rv, s1) \<Rightarrow> (rv, rfs_path_rem w s1 path)))"

definition redirfs_get_path_id :: "state \<Rightarrow> int \<Rightarrow> nat \<times> state" where
  "redirfs_get_path_id s i = rfs_path_find_id s i"

text \<open>
  The loop of \<^verbatim>\<open>redirfs_get_paths\<close>: the addresses stored into \<^verbatim>\<open>paths[]\<close>, each with its
  count raised.
\<close>

fun get_paths_loop :: "state \<Rightarrow> nat list \<Rightarrow> nat \<Rightarrow> nat list \<times> state" where
  "get_paths_loop s [] flt = ([], s)"
| "get_paths_loop s (rpath # rest) flt =
     (if rfs_chain_find (rpath_rinch (mem s rpath)) flt \<noteq> - 1
        then (case get_paths_loop (rfs_path_get s rpath) rest flt of
                (ps, s1) \<Rightarrow> (rpath # ps, s1))
      else if rfs_chain_find (rpath_rexch (mem s rpath)) flt \<noteq> - 1
        then (case get_paths_loop (rfs_path_get s rpath) rest flt of
                (ps, s1) \<Rightarrow> (rpath # ps, s1))
      else get_paths_loop s rest flt)"

definition redirfs_get_paths :: "world \<Rightarrow> state \<Rightarrow> nat \<Rightarrow> (int + nat list) \<times> state" where
  "redirfs_get_paths w s flt =
     (if flt = 0 then (Inl (- EINVAL), s)
      else if kalloc w s A_paths \<noteq> 0 then (Inl (- ENOMEM), s)
      else (case get_paths_loop s (rfs_path_list s) flt of (ps, s1) \<Rightarrow> (Inr ps, s1)))"

text \<open>The array ends at its first \<^verbatim>\<open>NULL\<close> entry.\<close>

fun redirfs_put_paths :: "state \<Rightarrow> nat list \<Rightarrow> state" where
  "redirfs_put_paths s [] = s"
| "redirfs_put_paths s (p # ps) =
     (if p = 0 then s else redirfs_put_paths (rfs_path_put s p) ps)"

text \<open>
  The loop of \<^verbatim>\<open>redirfs_rem_paths\<close>. Its last argument is the current value of the local
  \<^verbatim>\<open>rv\<close>, which the function declares without an initial value.
\<close>

fun rem_paths_loop :: "world \<Rightarrow> state \<Rightarrow> nat \<Rightarrow> nat list \<Rightarrow> int \<Rightarrow> int \<times> state" where
  "rem_paths_loop w s flt [] rv = (rv, s)"
| "rem_paths_loop w s flt (p # ps) rv =
     (if p = 0 then (rv, s)
      else (case redirfs_rem_path w s flt p of (rv1, s1) \<Rightarrow>
        if rv1 \<noteq> 0 then (rv1, s1) else rem_paths_loop w s1 flt ps rv1))"

text \<open>\<open>junk\<close> is whatever the stack slot of \<^verbatim>\<open>rv\<close> holds when the function is entered.\<close>

definition redirfs_rem_paths :: "world \<Rightarrow> state \<Rightarrow> nat \<Rightarrow> int \<Rightarrow> int \<times> state" where
  "redirfs_rem_paths w s flt junk =
     (if flt = 0 then (- EINVAL, s)
      else (case redirfs_get_paths w s flt of
          (Inl e, s1) \<Rightarrow> (e, s1)
        | (Inr paths, s1) \<Rightarrow>
            (case rem_paths_loop w s1 flt paths junk of
               (rv, s2) \<Rightarrow> (rv, redirfs_put_paths s2 paths))))"

text \<open>
  The loop of \<^verbatim>\<open>redirfs_get_paths_root\<close> over \<^verbatim>\<open>rroot->rpaths\<close>. Both tests read the chains
  of the root.
\<close>

fun get_paths_root_loop :: "state \<Rightarrow> rfs_root \<Rightarrow> nat list \<Rightarrow> nat \<Rightarrow> nat list \<times> state" where
  "get_paths_root_loop s rroot [] flt = ([], s)"
| "get_paths_root_loop s rroot (rpath # rest) flt =
     (if rfs_chain_find (rroot_rinch rroot) flt \<noteq> - 1
        then (case get_paths_root_loop (rfs_path_get s rpath) rroot rest flt of
                (ps, s1) \<Rightarrow> (rpath # ps, s1))
      else if rfs_chain_find (rroot_rexch rroot) flt \<noteq> - 1
        then (case get_paths_root_loop (rfs_path_get s rpath) rroot rest flt of
                (ps, s1) \<Rightarrow> (rpath # ps, s1))
      else get_paths_root_loop s rroot rest flt)"

definition redirfs_get_paths_root ::
  "world \<Rightarrow> state \<Rightarrow> nat \<Rightarrow> nat \<Rightarrow> (int + nat list) \<times> state" where
  "redirfs_get_paths_root w s flt root =
     (if flt = 0 \<or> root = 0 then (Inl (- EINVAL), s)
      else if kalloc w s A_paths \<noteq> 0 then (Inl (- ENOMEM), s)
      else (let rroot = w_root w (calls s) root in
            case get_paths_root_loop s rroot (rroot_rpaths rroot) flt of
              (ps, s1) \<Rightarrow> (Inr ps, s1)))"

subsection \<open>Rename\<close>

fun rfs_fsrename_rem_rroot :: "world \<Rightarrow> state \<Rightarrow> nat \<Rightarrow> chain \<Rightarrow> int \<times> state" where
  "rfs_fsrename_rem_rroot w s rroot [] = (0, s)"
| "rfs_fsrename_rem_rroot w s rroot (f # fs) =
     (case ext_call w (C_root_rem_flt rroot f) s of (rv, s1) \<Rightarrow>
        if rv \<noteq> 0 then (rv, s1)
        else (case ext_call w (C_root_walk_rem_flt f) s1 of (rv, s2) \<Rightarrow>
          if rv \<noteq> 0 then (rv, s2) else rfs_fsrename_rem_rroot w s2 rroot fs))"

fun rem_dentry_loop ::
  "world \<Rightarrow> state \<Rightarrow> nat \<Rightarrow> nat \<Rightarrow> chain \<Rightarrow> chain \<Rightarrow> int \<times> state" where
  "rem_dentry_loop w s rroot dentry rchrem [] = (0, s)"
| "rem_dentry_loop w s rroot dentry rchrem (f # fs) =
     (case rfs_chain_rem w s rchrem f of
        Inl e \<Rightarrow> (e, s)
      | Inr rchnew \<Rightarrow>
          if kalloc w s A_info \<noteq> 0 then (kalloc w s A_info, s)
          else (case ext_call w (C_info_rem dentry rroot rchnew f) s of (rv, s1) \<Rightarrow>
            if rv \<noteq> 0 then (rv, s1) else rem_dentry_loop w s1 rroot dentry rchnew fs))"

definition rfs_fsrename_rem_dentry ::
  "world \<Rightarrow> state \<Rightarrow> nat \<Rightarrow> chain \<Rightarrow> nat \<Rightarrow> int \<times> state" where
  "rfs_fsrename_rem_dentry w s rroot rchain dentry =
     (if rchain = [] then (0, s)
      else rem_dentry_loop w s rroot dentry
             (rinfo_rchain (rroot_rinfo (w_root w (calls s) rroot))) rchain)"

definition rfs_fsrename_rem :: "world \<Rightarrow> state \<Rightarrow> nat \<Rightarrow> nat \<Rightarrow> nat \<Rightarrow> int \<times> state" where
  "rfs_fsrename_rem w s rroot_src rroot_dst dentry =
     (if rroot_src = 0 then (0, s)
      else (case (if rroot_dst = 0
                    then Inr (rinfo_rchain (rroot_rinfo (w_root w (calls s) rroot_src)))
                  else rfs_chain_diff w s
                         (rinfo_rchain (rroot_rinfo (w_root w (calls s) rroot_src)))
                         (rinfo_rchain (rroot_rinfo (w_root w (calls s) rroot_dst)))) of
          Inl e \<Rightarrow> (e, s)
        | Inr rchain \<Rightarrow>
            if rroot_dentry (w_root w (calls s) rroot_src) = dentry
              then rfs_fsrename_rem_rroot w s rroot_src rchain
            else rfs_fsrename_rem_dentry w s rroot_src rchain dentry))"

fun rfs_fsrename_add_rroot :: "world \<Rightarrow> state \<Rightarrow> nat \<Rightarrow> chain \<Rightarrow> int \<times> state" where
  "rfs_fsrename_add_rroot w s rroot [] = (0, s)"
| "rfs_fsrename_add_rroot w s rroot (f # fs) =
     (case ext_call w (C_root_add_flt rroot f) s of (rv, s1) \<Rightarrow>
        if rv \<noteq> 0 then (rv, s1)
        else (case ext_call w (C_root_walk_add_flt f) s1 of (rv, s2) \<Rightarrow>
          if rv \<noteq> 0 then (rv, s2) else rfs_fsrename_add_rroot w s2 rroot fs))"

fun add_dentry_loop ::
  "world \<Rightarrow> state \<Rightarrow> nat \<Rightarrow> nat \<Rightarrow> chain \<Rightarrow> chain \<Rightarrow> int \<times> state" where
  "add_dentry_loop w s rroot dentry rchadd [] = (0, s)"
| "add_dentry_loop w s rroot dentry rchadd (f # fs) =
     (case rfs_chain_add w s rchadd f of
        Inl e \<Rightarrow> (e, s)
      | Inr rchnew \<Rightarrow>
          if kalloc w s A_info \<noteq> 0 then (kalloc w s A_info, s)
          else (case ext_call w (C_info_add dentry rroot rchnew f) s of (rv, s1) \<Rightarrow>
            if rv \<noteq> 0 then (rv, s1) else add_dentry_loop w s1 rroot dentry rchnew fs))"

definition rfs_fsrename_add_dentry ::
  "world \<Rightarrow> state \<Rightarrow> nat \<Rightarrow> chain \<Rightarrow> nat \<Rightarrow> int \<times> state" where
  "rfs_fsrename_add_dentry w s rroot rchain dentry =
     (if rchain = [] then ext_call w (C_info_reset dentry rroot) s
      else (case add_dentry_loop w s rroot dentry
                   (case w_dentry_find w (calls s) dentry of
                      None \<Rightarrow> [] | Some rdentry \<Rightarrow> rinfo_rchain rdentry) rchain of
          (rv, s1) \<Rightarrow>
            if rv \<noteq> 0 then (rv, s1) else ext_call w (C_info_reset dentry rroot) s1))"

definition rfs_fsrename_add :: "world \<Rightarrow> state \<Rightarrow> nat \<Rightarrow> nat \<Rightarrow> nat \<Rightarrow> int \<times> state" where
  "rfs_fsrename_add w s rroot_src rroot_dst dentry =
     (if rroot_dst = 0 then (0, s)
      else (case (if rroot_src = 0
                    then Inr (rinfo_rchain (rroot_rinfo (w_root w (calls s) rroot_dst)))
                  else rfs_chain_diff w s
                         (rinfo_rchain (rroot_rinfo (w_root w (calls s) rroot_dst)))
                         (rinfo_rchain (rroot_rinfo (w_root w (calls s) rroot_src)))) of
          Inl e \<Rightarrow> (e, s)
        | Inr rchain \<Rightarrow>
            if rroot_src \<noteq> 0 \<and> rroot_dentry (w_root w (calls s) rroot_src) = dentry
              then rfs_fsrename_add_rroot w s rroot_src rchain
            else rfs_fsrename_add_dentry w s rroot_dst rchain dentry))"

fun set_loop ::
  "world \<Rightarrow> state \<Rightarrow> nat \<Rightarrow> nat \<Rightarrow> chain \<Rightarrow> chain \<Rightarrow> chain \<Rightarrow> int \<times> state" where
  "set_loop w s rroot_dst dentry rchain_src rchain_dst [] = (0, s)"
| "set_loop w s rroot_dst dentry rchain_src rchain_dst (f # fs) =
     (if rfs_chain_find rchain_dst f = - 1
        then set_loop w s rroot_dst dentry rchain_src rchain_dst fs
      else if kalloc w s A_info \<noteq> 0 then (kalloc w s A_info, s)
      else (case ext_call w (C_info_set dentry rroot_dst rchain_src f) s of (rv, s1) \<Rightarrow>
        if rv \<noteq> 0 then (rv, s1)
        else set_loop w s1 rroot_dst dentry rchain_src rchain_dst fs))"

text \<open>
  \<^verbatim>\<open>rfs_fsrename_set\<close> reads \<^verbatim>\<open>rchain_src->rflts_nr\<close> without testing \<^verbatim>\<open>rchain_src\<close>.
\<close>

definition rfs_fsrename_set ::
  "world \<Rightarrow> state \<Rightarrow> nat \<Rightarrow> nat \<Rightarrow> nat \<Rightarrow> (fault + int) \<times> state" where
  "rfs_fsrename_set w s rroot_src rroot_dst dentry =
     (if rroot_src = 0 \<or> rroot_dst = 0 then (Inr 0, s)
      else if rroot_dentry (w_root w (calls s) rroot_src) = dentry then (Inr 0, s)
      else (case w_dentry_find w (calls s) dentry of
          None \<Rightarrow> (Inr 0, s)
        | Some rdentry \<Rightarrow>
            if rinfo_rchain rdentry = [] then (Inl NULL_deref, s)
            else (case set_loop w s rroot_dst dentry (rinfo_rchain rdentry)
                         (rinfo_rchain (rroot_rinfo (w_root w (calls s) rroot_dst)))
                         (rinfo_rchain rdentry) of
                (rv, s1) \<Rightarrow> (Inr rv, s1))))"

text \<open>
  The two roots that \<^verbatim>\<open>rfs_fsrename\<close> compares: \<^verbatim>\<open>rroot_dst\<close> from the record of the new
  parent's inode, \<^verbatim>\<open>rroot_src\<close> from the record of the moved dentry.
\<close>

definition fsrename_rroot_dst :: "rfs_info \<Rightarrow> nat" where
  "fsrename_rroot_dst rinode = (if rinfo_rchain rinode \<noteq> [] then rinfo_rroot rinode else 0)"

definition fsrename_rroot_src :: "rfs_info option \<Rightarrow> nat" where
  "fsrename_rroot_src rdentry =
     (case rdentry of
        None \<Rightarrow> 0
      | Some rd \<Rightarrow> if rinfo_rchain rd \<noteq> [] then rinfo_rroot rd else 0)"

definition rfs_fsrename ::
  "world \<Rightarrow> state \<Rightarrow> nat \<Rightarrow> nat \<Rightarrow> nat \<Rightarrow> (fault + int) \<times> state" where
  "rfs_fsrename w s old_dir old_dentry new_dir =
     (if old_dir = new_dir then (Inr 0, s)
      else (case w_inode_find w (calls s) new_dir of
          None \<Rightarrow> (Inl NULL_deref, s)
        | Some rinode \<Rightarrow>
            (let rroot_dst = fsrename_rroot_dst rinode;
                 rroot_src = fsrename_rroot_src (w_dentry_find w (calls s) old_dentry)
             in if rroot_src = rroot_dst then (Inr 0, s)
                else (case rfs_fsrename_rem w s rroot_src rroot_dst old_dentry of
                    (rv, s1) \<Rightarrow>
                      if rv \<noteq> 0 then (Inr rv, s1)
                      else (case rfs_fsrename_set w s1 rroot_src rroot_dst old_dentry of
                          (Inl flt, s2) \<Rightarrow> (Inl flt, s2)
                        | (Inr rv, s2) \<Rightarrow>
                            if rv \<noteq> 0 then (Inr rv, s2)
                            else (case rfs_fsrename_add w s2 rroot_src rroot_dst old_dentry of
                                (rv, s3) \<Rightarrow> (Inr rv, s3)))))))"

section \<open>Invariants of the registry\<close>

text \<open>
  The two chains of a path object hold every filter at most once and share no filter.
\<close>

definition chains_ok :: "rfs_path \<Rightarrow> bool" where
  "chains_ok p \<longleftrightarrow> distinct (rpath_rinch p) \<and> distinct (rpath_rexch p) \<and>
     set (rpath_rinch p) \<inter> set (rpath_rexch p) = {}"

definition empty_chains :: "rfs_path \<Rightarrow> bool" where
  "empty_chains p \<longleftrightarrow> rpath_rinch p = [] \<and> rpath_rexch p = []"

text \<open>
  The registry is well-formed when the list holds distinct allocated objects, each with
  a filter on one of its chains and the reference of the list counted, and every
  allocated object outside the list has no chain.
\<close>

definition registry_inv :: "state \<Rightarrow> bool" where
  "registry_inv s \<longleftrightarrow>
     distinct (rfs_path_list s) \<and> 0 < brk s \<and>
     (\<forall>a \<in> set (rfs_path_list s). 0 < a \<and> a < brk s \<and> \<not> empty_chains (mem s a) \<and>
        1 \<le> rpath_count (mem s a)) \<and>
     (\<forall>a \<in> {..<brk s}. chains_ok (mem s a) \<and>
        (a \<notin> set (rfs_path_list s) \<longrightarrow> empty_chains (mem s a)))"

text \<open>
  \<open>cites m f a\<close>: the object at \<open>a\<close> has filter \<open>f\<close> on one of its chains. \<open>nr_ok s f\<close>: the
  counter of \<open>f\<close> is the number of registered objects that cite it.
\<close>

definition cites :: "(nat \<Rightarrow> rfs_path) \<Rightarrow> nat \<Rightarrow> nat \<Rightarrow> bool" where
  "cites m f a \<longleftrightarrow> f \<in> set (rpath_rinch (m a)) \<or> f \<in> set (rpath_rexch (m a))"

definition nr_ok :: "state \<Rightarrow> nat \<Rightarrow> bool" where
  "nr_ok s f \<longleftrightarrow> paths_nr s f = int (length (filter (cites (mem s) f) (rfs_path_list s)))"

section \<open>Concrete worlds and scenarios\<close>

text \<open>
  A world in which every collaborator succeeds and \<^verbatim>\<open>rfs_root_add\<close> returns the root
  whose address is the dentry.
\<close>

definition world_ok :: world where
  "world_ok = \<lparr>w_ret = (\<lambda>_ c. case c of C_root_add d \<Rightarrow> int d | _ \<Rightarrow> 0),
     w_alloc = (\<lambda>_ _. 0), w_inode_find = (\<lambda>_ _. None), w_dentry_find = (\<lambda>_ _. None),
     w_root = (\<lambda>_ _. \<lparr>rroot_dentry = 0, rroot_rinfo = \<lparr>rinfo_rchain = [], rinfo_rroot = 0\<rparr>,
        rroot_rinch = [], rroot_rexch = [], rroot_rpaths = [], rroot_paths_nr = 0\<rparr>),
     w_d_inode = (\<lambda>d. d), w_sb_root = (\<lambda>_. 1)\<rparr>"

definition include_info :: "nat \<Rightarrow> nat \<Rightarrow> redirfs_path_info option" where
  "include_info m d =
     Some \<lparr>info_dentry = d, info_mnt = m, info_flags = REDIRFS_PATH_INCLUDE\<rparr>"

text \<open>
  Filter 7 registers dentries 11 and 12 of mount 1, removes the first path and
  registers dentry 13: the list then holds the objects 2 and 3, with the ids 1 and 0.
\<close>

definition reuse_state :: state where
  "reuse_state =
     (let s1 = snd (redirfs_add_path world_ok init_state 7 (include_info 1 11));
          s2 = snd (redirfs_add_path world_ok s1 7 (include_info 1 12));
          s3 = snd (redirfs_rem_path world_ok s2 7 1);
          s4 = snd (redirfs_add_path world_ok s3 7 (include_info 1 13))
      in s4)"

text \<open>
  The registry while a caller holds the references of the array \<open>ps\<close> of
  \<^verbatim>\<open>redirfs_get_paths\<close>: every path of the array that is still registered is counted
  twice at least.
\<close>

definition holding :: "nat list \<Rightarrow> state \<Rightarrow> bool" where
  "holding ps s \<longleftrightarrow> registry_inv s \<and>
     (\<forall>p \<in> set ps. p < brk s \<and> (p \<in> set (rfs_path_list s) \<longrightarrow> 2 \<le> rpath_count (mem s p)))"

text \<open>
  The states reached from the empty registry by the three mutators of the interface,
  in any world. \<^verbatim>\<open>redirfs_rem_path\<close> is given a handle that \<^verbatim>\<open>redirfs_add_path\<close> has
  returned, as its comment asks: an address below \<open>brk\<close>.
\<close>

inductive reachable :: "state \<Rightarrow> bool" where
  init: "reachable init_state"
| add: "reachable s \<Longrightarrow> reachable (snd (redirfs_add_path w s f info))"
| rem: "reachable s \<Longrightarrow> p < brk s \<Longrightarrow> reachable (snd (redirfs_rem_path w s f p))"
| rem_all: "reachable s \<Longrightarrow> reachable (snd (redirfs_rem_paths w s f junk))"


definition world_rem_fails :: world where
  "world_rem_fails = world_ok\<lparr>w_ret :=
     (\<lambda>_ c. case c of C_root_add d \<Rightarrow> int d | C_root_rem_include _ _ \<Rightarrow> - 5 | _ \<Rightarrow> 0)\<rparr>"

definition one_path_state :: state where
  "one_path_state = snd (redirfs_add_path world_ok init_state 7 (include_info 1 11))"

definition exclude_info :: "nat \<Rightarrow> nat \<Rightarrow> redirfs_path_info option" where
  "exclude_info m d =
     Some \<lparr>info_dentry = d, info_mnt = m, info_flags = REDIRFS_PATH_EXCLUDE\<rparr>"

definition rem_fails_result :: "int \<times> state" where
  "rem_fails_result = redirfs_rem_path world_rem_fails one_path_state 7 1"

definition reuse_result :: "(int + nat) \<times> state" where
  "reuse_result = redirfs_add_path world_ok reuse_state 7 (include_info 1 14)"

text \<open>
  Dentry 9 is reached through the mounts 1 and 2. Filter 5 registers the path of mount
  1 and filter 6 the path of mount 2; both paths belong to the root 9, whose include
  chain holds both filters.
\<close>

definition bind_state :: state where
  "bind_state =
     snd (redirfs_add_path world_ok
            (snd (redirfs_add_path world_ok init_state 5 (include_info 1 9)))
            6 (include_info 2 9))"

definition world_bind :: world where
  "world_bind = world_ok\<lparr>w_root := (\<lambda>_ _.
     \<lparr>rroot_dentry = 9, rroot_rinfo = \<lparr>rinfo_rchain = [5, 6], rinfo_rroot = 9\<rparr>,
      rroot_rinch = [5, 6], rroot_rexch = [], rroot_rpaths = [1, 2], rroot_paths_nr = 2\<rparr>)\<rparr>"


text \<open>The filter a call detaches from a root or an entry, and the filter it attaches.\<close>

fun detach_of :: "call \<Rightarrow> nat list" where
  "detach_of (C_root_rem_flt r f) = [f]"
| "detach_of (C_info_rem d r c f) = [f]"
| "detach_of _ = []"

fun attach_of :: "call \<Rightarrow> nat list" where
  "attach_of (C_root_add_flt r f) = [f]"
| "attach_of (C_info_add d r c f) = [f]"
| "attach_of _ = []"

definition detached :: "call list \<Rightarrow> nat list" where
  "detached cs = concat (map detach_of cs)"

definition attached :: "call list \<Rightarrow> nat list" where
  "attached cs = concat (map attach_of cs)"


text \<open>
  \<open>call_failed w cs c\<close>: the collaborator call \<open>c\<close>, made when the log of calls is
  \<open>cs\<close>, reports a failure. \<^verbatim>\<open>rfs_root_add\<close> fails with a negative answer (an
  \<^verbatim>\<open>ERR_PTR\<close>); \<^verbatim>\<open>rfs_root_add_rpath\<close> and \<^verbatim>\<open>rfs_root_rem_rpath\<close> return nothing; every
  other collaborator fails with an answer other than 0.
\<close>

definition call_failed :: "world \<Rightarrow> call list \<Rightarrow> call \<Rightarrow> bool" where
  "call_failed w cs c \<longleftrightarrow>
     (case c of
        C_root_add d \<Rightarrow> w_ret w cs c < 0
      | C_root_add_rpath r p \<Rightarrow> False
      | C_root_rem_rpath r p \<Rightarrow> False
      | _ \<Rightarrow> w_ret w cs c \<noteq> 0)"

text \<open>
  \<open>failures_give w cs t P\<close>: when the calls \<open>t\<close> are made in turn from the log \<open>cs\<close>,
  the answer of every call that fails satisfies \<open>P\<close>. \<open>no_call_failed w cs t\<close>: none of
  them fails.
\<close>

fun failures_give :: "world \<Rightarrow> call list \<Rightarrow> call list \<Rightarrow> (int \<Rightarrow> bool) \<Rightarrow> bool" where
  "failures_give w cs [] P = True"
| "failures_give w cs (c # t) P =
     ((call_failed w cs c \<longrightarrow> P (w_ret w cs c)) \<and> failures_give w (cs @ [c]) t P)"

definition no_call_failed :: "world \<Rightarrow> call list \<Rightarrow> call list \<Rightarrow> bool" where
  "no_call_failed w cs t = failures_give w cs t (\<lambda>e. False)"










text \<open>Worlds for renames: fixed inode and dentry records and fixed roots.\<close>

definition root_of :: "nat \<Rightarrow> chain \<Rightarrow> rfs_root" where
  "root_of d c = \<lparr>rroot_dentry = d, rroot_rinfo = \<lparr>rinfo_rchain = c, rinfo_rroot = 0\<rparr>,
     rroot_rinch = c, rroot_rexch = [], rroot_rpaths = [], rroot_paths_nr = 0\<rparr>"


text \<open>
  The directories 10 and 11 and the entry 30 lie under root 100 (chain 1, dentry 5).
  The entry 20 inside directory 10 is a path registered to exclude filter 1: it is the
  dentry of root 101 and its record carries no chain.
\<close>

definition world_nested :: world where
  "world_nested = world_ok\<lparr>
     w_inode_find := (\<lambda>_ i. if i = 10 \<or> i = 11
        then Some \<lparr>rinfo_rchain = [1], rinfo_rroot = 100\<rparr> else None),
     w_dentry_find := (\<lambda>_ d. if d = 20 then Some \<lparr>rinfo_rchain = [], rinfo_rroot = 101\<rparr>
        else if d = 30 then Some \<lparr>rinfo_rchain = [1], rinfo_rroot = 100\<rparr> else None),
     w_root := (\<lambda>_ r. if r = 100 then root_of 5 [1] else root_of 20 [])\<rparr>"





section \<open>Properties\<close>

subsection \<open>Chains, lookups and ids\<close>

lemmas path_defs = redirfs_add_path_def redirfs_rem_path_def rfs_path_add_def rfs_path_find_def
  rfs_path_get_def rfs_path_put_def rfs_path_get_id_def rfs_path_alloc_def rfs_path_add_rroot_def
  rfs_path_rem_rroot_def rfs_path_list_add_def rfs_path_list_rem_def rfs_path_rem_def
  rfs_path_add_dirs_def rfs_path_add_include_def rfs_path_add_exclude_def rfs_path_rem_include_def
  rfs_path_rem_exclude_def set_rinch_def set_rexch_def add_paths_nr_def ext_call_def kalloc_def
  rfs_chain_add_def rfs_chain_rem_def zeroed_def

lemma rfs_chain_find_ge: "- 1 \<le> rfs_chain_find c f"
  by (induction c) (simp_all add: Let_def)

lemma rfs_chain_find_eq [simp]: "rfs_chain_find c f = - 1 \<longleftrightarrow> f \<notin> set c"
proof (induction c)
  case Nil
  show ?case by simp
next
  case (Cons x xs)
  have "rfs_chain_find xs f + 1 \<noteq> - 1"
    using rfs_chain_find_ge [of xs f] by arith
  with Cons show ?case by (auto simp add: Let_def)
qed

lemma path_list_find_cases:
  "path_list_find m l mnt d = 0 \<or> path_list_find m l mnt d \<in> set l"
  by (induction l) auto

lemma path_list_find_key:
  "path_list_find m l mnt d \<noteq> 0 \<Longrightarrow>
   rpath_mnt (m (path_list_find m l mnt d)) = mnt \<and> rpath_dentry (m (path_list_find m l mnt d)) = d"
  by (induction l) (auto split: if_splits)

lemma path_list_find_none:
  "0 \<notin> set l \<Longrightarrow> path_list_find m l mnt d = 0 \<Longrightarrow> a \<in> set l \<Longrightarrow>
   rpath_mnt (m a) \<noteq> mnt \<or> rpath_dentry (m a) \<noteq> d"
  by (induction l) (auto split: if_splits)

lemma path_list_scan_id_ge: "i \<le> path_list_scan_id m l i"
proof (induction l arbitrary: i)
  case Nil
  show ?case by simp
next
  case (Cons a l)
  have "i \<le> (if rpath_id (m a) = i then i + 1 else i)" by simp
  also have "\<dots> \<le> path_list_scan_id m l (if rpath_id (m a) = i then i + 1 else i)"
    by (rule Cons.IH)
  finally show ?case by simp
qed

lemma rfs_path_get_id_nonneg: "0 \<le> rfs_path_get_id s"
  using path_list_scan_id_ge [of 0 "mem s" "rfs_path_list s"] by (simp add: rfs_path_get_id_def)

lemma rfs_path_add_cases:
  assumes inv: "registry_inv s" and run: "rfs_path_add w s mnt d = (r, s1)"
  obtains
    (found) p where "r = Inr p" "p \<in> set (rfs_path_list s)"
      "p = path_list_find (mem s) (rfs_path_list s) mnt d"
      "rfs_path_list s1 = rfs_path_list s" "brk s1 = brk s" "paths_nr s1 = paths_nr s"
      "bug s1 = bug s"
      "mem s1 = (mem s)(p := (mem s p)\<lparr>rpath_count := rpath_count (mem s p) + 1\<rparr>)"
  | (failed) e where "r = Inl e" "path_list_find (mem s) (rfs_path_list s) mnt d = 0"
      "rfs_path_list s1 = rfs_path_list s" "paths_nr s1 = paths_nr s" "bug s1 = bug s"
      "brk s \<le> brk s1" "\<forall>a. a < brk s \<longrightarrow> mem s1 a = mem s a"
      "\<forall>a. brk s \<le> a \<and> a < brk s1 \<longrightarrow> empty_chains (mem s1 a)"
  | (created) "r = Inr (brk s)" "path_list_find (mem s) (rfs_path_list s) mnt d = 0"
      "rfs_path_list s1 = rfs_path_list s @ [brk s]" "brk s1 = brk s + 1"
      "paths_nr s1 = paths_nr s" "bug s1 = bug s"
      "\<forall>a. a \<noteq> brk s \<longrightarrow> mem s1 a = mem s a"
      "rpath_rinch (mem s1 (brk s)) = []" "rpath_rexch (mem s1 (brk s)) = []"
      "rpath_count (mem s1 (brk s)) = 2" "rpath_mnt (mem s1 (brk s)) = mnt"
      "rpath_dentry (mem s1 (brk s)) = d" "rpath_id (mem s1 (brk s)) = rfs_path_get_id s"
proof (cases "path_list_find (mem s) (rfs_path_list s) mnt d = 0")
  case True
  note nf = True
  have id: "\<not> rfs_path_get_id s < 0" using rfs_path_get_id_nonneg [of s] by simp
  from inv have brk: "brk s \<noteq> 0" by (simp add: registry_inv_def)
  show thesis
  proof (cases "kalloc w s A_rpath = 0")
    case False
    with nf id run have "r = Inl (- ENOMEM)" "s1 = s"
      by (simp_all add: rfs_path_add_def rfs_path_find_def rfs_path_get_def rfs_path_alloc_def)
    with nf show thesis by (intro failed) auto
  next
    case True
    note al = True
    show thesis
    proof (cases "w_ret w (calls s) (C_root_add d) < 0")
      case True
      with nf id al brk run have "r = Inl (w_ret w (calls s) (C_root_add d))"
        "s1 = rfs_path_put (snd (rfs_path_add_rroot w
           ((snd (rfs_path_alloc w s mnt d))\<lparr>mem := (mem (snd (rfs_path_alloc w s mnt d)))
              (brk s := (mem (snd (rfs_path_alloc w s mnt d)) (brk s))\<lparr>rpath_id := rfs_path_get_id s\<rparr>)\<rparr>) (brk s))) (brk s)"
        by (simp_all add: rfs_path_add_def rfs_path_find_def rfs_path_get_def rfs_path_alloc_def
            rfs_path_add_rroot_def ext_call_def Let_def)
      with nf al brk True show thesis
        by (intro failed) (simp_all add: rfs_path_alloc_def
            rfs_path_add_rroot_def ext_call_def rfs_path_put_def
            empty_chains_def zeroed_def)
    next
      case False
      with nf id al brk run have "r = Inr (brk s)"
        "s1 = rfs_path_list_add (snd (rfs_path_add_rroot w
           ((snd (rfs_path_alloc w s mnt d))\<lparr>mem := (mem (snd (rfs_path_alloc w s mnt d)))
              (brk s := (mem (snd (rfs_path_alloc w s mnt d)) (brk s))\<lparr>rpath_id := rfs_path_get_id s\<rparr>)\<rparr>) (brk s))) (brk s)"
        by (simp_all add: rfs_path_add_def rfs_path_find_def rfs_path_get_def rfs_path_alloc_def
            rfs_path_add_rroot_def ext_call_def Let_def)
      with nf al brk False show thesis
        by (intro created) (simp_all add: rfs_path_alloc_def rfs_path_get_def
            rfs_path_add_rroot_def ext_call_def rfs_path_list_add_def zeroed_def)
    qed
  qed
next
  case False
  with path_list_find_cases [of "mem s" "rfs_path_list s" mnt d]
  have mem: "path_list_find (mem s) (rfs_path_list s) mnt d \<in> set (rfs_path_list s)" by simp
  with inv have "rpath_count (mem s (path_list_find (mem s) (rfs_path_list s) mnt d)) \<noteq> 0"
    by (auto simp add: registry_inv_def)
  with False run have "r = Inr (path_list_find (mem s) (rfs_path_list s) mnt d)"
    "s1 = rfs_path_get s (path_list_find (mem s) (rfs_path_list s) mnt d)"
    by (simp_all add: rfs_path_add_def rfs_path_find_def Let_def)
  with False mem \<open>rpath_count _ \<noteq> 0\<close> show thesis
    by (intro found) (simp_all add: rfs_path_get_def)
qed

lemma rfs_path_add_include_effect:
  assumes run: "rfs_path_add_include w s p f = (rv, s2)"
  shows "rfs_path_list s2 = rfs_path_list s \<and> brk s2 = brk s \<and> bug s2 = bug s \<and>
    (f \<in> set (rpath_rinch (mem s p)) \<longrightarrow> rv = 0 \<and> s2 = s) \<and>
    (f \<notin> set (rpath_rinch (mem s p)) \<and> f \<in> set (rpath_rexch (mem s p)) \<longrightarrow> rv = - EEXIST \<and> s2 = s) \<and>
    (rv \<noteq> 0 \<longrightarrow> mem s2 = mem s \<and> paths_nr s2 = paths_nr s) \<and>
    (rv = 0 \<and> f \<notin> set (rpath_rinch (mem s p)) \<longrightarrow>
       f \<notin> set (rpath_rexch (mem s p)) \<and>
       paths_nr s2 = (paths_nr s)(f := paths_nr s f + 1) \<and>
       mem s2 = (mem s)(p := (mem s p)\<lparr>rpath_rinch := rpath_rinch (mem s p) @ [f]\<rparr>))"
  using run
  by (auto simp add: rfs_path_add_include_def rfs_path_add_dirs_def ext_call_def rfs_chain_add_def
      set_rinch_def add_paths_nr_def
      split: if_splits option.splits sum.splits prod.splits)

lemma rfs_path_add_exclude_effect:
  assumes run: "rfs_path_add_exclude w s p f = (rv, s2)"
  shows "rfs_path_list s2 = rfs_path_list s \<and> brk s2 = brk s \<and> bug s2 = bug s \<and>
    (f \<in> set (rpath_rexch (mem s p)) \<longrightarrow> rv = 0 \<and> s2 = s) \<and>
    (f \<notin> set (rpath_rexch (mem s p)) \<and> f \<in> set (rpath_rinch (mem s p)) \<longrightarrow> rv = - EEXIST \<and> s2 = s) \<and>
    (rv \<noteq> 0 \<longrightarrow> mem s2 = mem s \<and> paths_nr s2 = paths_nr s) \<and>
    (rv = 0 \<and> f \<notin> set (rpath_rexch (mem s p)) \<longrightarrow>
       f \<notin> set (rpath_rinch (mem s p)) \<and>
       paths_nr s2 = (paths_nr s)(f := paths_nr s f + 1) \<and>
       mem s2 = (mem s)(p := (mem s p)\<lparr>rpath_rexch := rpath_rexch (mem s p) @ [f]\<rparr>))"
  using run
  by (auto simp add: rfs_path_add_exclude_def ext_call_def rfs_chain_add_def
      set_rexch_def add_paths_nr_def
      split: if_splits option.splits sum.splits prod.splits)

lemma rfs_path_rem_include_effect:
  assumes run: "rfs_path_rem_include w s p f = (rv, s2)"
  shows "rfs_path_list s2 = rfs_path_list s \<and> brk s2 = brk s \<and> bug s2 = bug s \<and>
    (f \<notin> set (rpath_rinch (mem s p)) \<longrightarrow> rv = 0 \<and> s2 = s) \<and>
    (rv \<noteq> 0 \<longrightarrow> mem s2 = mem s \<and> paths_nr s2 = paths_nr s) \<and>
    (rv = 0 \<and> f \<in> set (rpath_rinch (mem s p)) \<longrightarrow>
       paths_nr s2 = (paths_nr s)(f := paths_nr s f - 1) \<and>
       mem s2 = (mem s)(p := (mem s p)\<lparr>rpath_rinch := remove1 f (rpath_rinch (mem s p))\<rparr>))"
  using run
  by (auto simp add: rfs_path_rem_include_def ext_call_def rfs_chain_rem_def
      set_rinch_def add_paths_nr_def
      split: if_splits option.splits sum.splits prod.splits)

lemma rfs_path_rem_exclude_effect:
  assumes run: "rfs_path_rem_exclude w s p f = (rv, s2)"
  shows "rfs_path_list s2 = rfs_path_list s \<and> brk s2 = brk s \<and> bug s2 = bug s \<and>
    (f \<notin> set (rpath_rexch (mem s p)) \<longrightarrow> rv = 0 \<and> s2 = s) \<and>
    (rv \<noteq> 0 \<longrightarrow> mem s2 = mem s \<and> paths_nr s2 = paths_nr s) \<and>
    (rv = 0 \<and> f \<in> set (rpath_rexch (mem s p)) \<longrightarrow>
       paths_nr s2 = (paths_nr s)(f := paths_nr s f - 1) \<and>
       mem s2 = (mem s)(p := (mem s p)\<lparr>rpath_rexch := remove1 f (rpath_rexch (mem s p))\<rparr>))"
  using run
  by (auto simp add: rfs_path_rem_exclude_def ext_call_def rfs_chain_rem_def
      set_rexch_def add_paths_nr_def
      split: if_splits option.splits sum.splits prod.splits)

lemma rfs_path_rem_effect:
  "brk (rfs_path_rem w s p) = brk s \<and> paths_nr (rfs_path_rem w s p) = paths_nr s \<and>
   (\<forall>a. a \<noteq> p \<longrightarrow> mem (rfs_path_rem w s p) a = mem s a) \<and>
   rpath_rinch (mem (rfs_path_rem w s p) p) = rpath_rinch (mem s p) \<and>
   rpath_rexch (mem (rfs_path_rem w s p) p) = rpath_rexch (mem s p) \<and>
   rpath_mnt (mem (rfs_path_rem w s p) p) = rpath_mnt (mem s p) \<and>
   rpath_dentry (mem (rfs_path_rem w s p) p) = rpath_dentry (mem s p) \<and>
   rpath_id (mem (rfs_path_rem w s p) p) = rpath_id (mem s p) \<and>
   (\<not> empty_chains (mem s p) \<longrightarrow> rfs_path_rem w s p = s) \<and>
   (empty_chains (mem s p) \<longrightarrow>
      rfs_path_list (rfs_path_rem w s p) = remove1 p (rfs_path_list s) \<and>
      (p \<noteq> 0 \<and> rpath_count (mem s p) \<noteq> 0 \<longrightarrow>
         bug (rfs_path_rem w s p) = bug s \<and>
         rpath_count (mem (rfs_path_rem w s p) p) = rpath_count (mem s p) - 1))"
  by (simp add: rfs_path_rem_def rfs_path_rem_rroot_def rfs_path_list_rem_def rfs_path_put_def
      ext_call_def empty_chains_def)

lemma remove1_snoc: "x \<notin> set xs \<Longrightarrow> remove1 x (xs @ [x]) = xs"
  by (induction xs) auto

lemma add_by_flags_effect:
  assumes run: "(if flags = REDIRFS_PATH_INCLUDE then rfs_path_add_include w s p f
                 else if flags = REDIRFS_PATH_EXCLUDE then rfs_path_add_exclude w s p f
                 else (- EINVAL, s)) = (rv, s2)"
  shows "rfs_path_list s2 = rfs_path_list s \<and> brk s2 = brk s \<and> bug s2 = bug s \<and>
    (rv \<noteq> 0 \<longrightarrow> mem s2 = mem s \<and> paths_nr s2 = paths_nr s) \<and>
    (rv = 0 \<longrightarrow> (flags = REDIRFS_PATH_INCLUDE \<or> flags = REDIRFS_PATH_EXCLUDE) \<and>
       (if f \<in> set (if flags = REDIRFS_PATH_INCLUDE then rpath_rinch (mem s p) else rpath_rexch (mem s p))
        then s2 = s
        else f \<notin> set (rpath_rinch (mem s p)) \<and> f \<notin> set (rpath_rexch (mem s p)) \<and>
             paths_nr s2 = (paths_nr s)(f := paths_nr s f + 1) \<and>
             mem s2 = (mem s)(p := (if flags = REDIRFS_PATH_INCLUDE
                 then (mem s p)\<lparr>rpath_rinch := rpath_rinch (mem s p) @ [f]\<rparr>
                 else (mem s p)\<lparr>rpath_rexch := rpath_rexch (mem s p) @ [f]\<rparr>))))"
proof (cases "flags = REDIRFS_PATH_INCLUDE")
  case True
  with run have "rfs_path_add_include w s p f = (rv, s2)" by simp
  from rfs_path_add_include_effect [OF this] True show ?thesis by auto
next
  case False
  note ni = False
  show ?thesis
  proof (cases "flags = REDIRFS_PATH_EXCLUDE")
    case True
    with run have "rfs_path_add_exclude w s p f = (rv, s2)" by simp
    from rfs_path_add_exclude_effect [OF this] True show ?thesis by auto
  next
    case False
    with ni run show ?thesis by auto
  qed
qed

lemma redirfs_add_path_cases:
  assumes inv: "registry_inv s" and run: "redirfs_add_path w s f info = (r, s')"
  obtains
    (failed) e where "r = Inl e"
      "rfs_path_list s' = rfs_path_list s" "paths_nr s' = paths_nr s" "bug s' = bug s"
      "brk s \<le> brk s'" "\<forall>a. a < brk s \<longrightarrow> mem s' a = mem s a"
      "\<forall>a. brk s \<le> a \<and> a < brk s' \<longrightarrow> empty_chains (mem s' a)"
  | (noop) p pinfo where "r = Inr p" "info = Some pinfo" "p \<in> set (rfs_path_list s)"
      "p = path_list_find (mem s) (rfs_path_list s) (info_mnt pinfo) (info_dentry pinfo)"
      "f \<in> set (if info_flags pinfo = REDIRFS_PATH_INCLUDE then rpath_rinch (mem s p)
                  else rpath_rexch (mem s p))"
      "rfs_path_list s' = rfs_path_list s" "brk s' = brk s" "paths_nr s' = paths_nr s"
      "bug s' = bug s"
      "mem s' = (mem s)(p := (mem s p)\<lparr>rpath_count := rpath_count (mem s p) + 1\<rparr>)"
  | (added) p pinfo where "r = Inr p" "info = Some pinfo" "p \<in> set (rfs_path_list s)"
      "p = path_list_find (mem s) (rfs_path_list s) (info_mnt pinfo) (info_dentry pinfo)"
      "f \<noteq> 0"
      "info_flags pinfo = REDIRFS_PATH_INCLUDE \<or> info_flags pinfo = REDIRFS_PATH_EXCLUDE"
      "f \<notin> set (rpath_rinch (mem s p))" "f \<notin> set (rpath_rexch (mem s p))"
      "rfs_path_list s' = rfs_path_list s" "brk s' = brk s" "bug s' = bug s"
      "paths_nr s' = (paths_nr s)(f := paths_nr s f + 1)"
      "mem s' = (mem s)(p := (if info_flags pinfo = REDIRFS_PATH_INCLUDE
          then (mem s p)\<lparr>rpath_rinch := rpath_rinch (mem s p) @ [f],
                          rpath_count := rpath_count (mem s p) + 1\<rparr>
          else (mem s p)\<lparr>rpath_rexch := rpath_rexch (mem s p) @ [f],
                          rpath_count := rpath_count (mem s p) + 1\<rparr>))"
  | (created) pinfo where "r = Inr (brk s)" "info = Some pinfo"
      "path_list_find (mem s) (rfs_path_list s) (info_mnt pinfo) (info_dentry pinfo) = 0"
      "f \<noteq> 0"
      "info_flags pinfo = REDIRFS_PATH_INCLUDE \<or> info_flags pinfo = REDIRFS_PATH_EXCLUDE"
      "rfs_path_list s' = rfs_path_list s @ [brk s]" "brk s' = brk s + 1" "bug s' = bug s"
      "paths_nr s' = (paths_nr s)(f := paths_nr s f + 1)"
      "\<forall>a. a \<noteq> brk s \<longrightarrow> mem s' a = mem s a"
      "rpath_rinch (mem s' (brk s)) = (if info_flags pinfo = REDIRFS_PATH_INCLUDE then [f] else [])"
      "rpath_rexch (mem s' (brk s)) = (if info_flags pinfo = REDIRFS_PATH_INCLUDE then [] else [f])"
      "rpath_count (mem s' (brk s)) = 2" "rpath_mnt (mem s' (brk s)) = info_mnt pinfo"
      "rpath_dentry (mem s' (brk s)) = info_dentry pinfo"
      "rpath_id (mem s' (brk s)) = rfs_path_get_id s"
proof (cases "info = None \<or> f = 0 \<or> info_mnt (the info) = 0 \<or> info_dentry (the info) = 0 \<or>
    info_flags (the info) = 0")
  case True
  with run have "r = Inl (- EINVAL)" "s' = s"
    by (cases info; auto simp add: redirfs_add_path_def split: if_splits)+
  then show thesis by (intro failed) auto
next
  case False
  then obtain pinfo where info: "info = Some pinfo" and f: "f \<noteq> 0"
    and valid: "info_mnt pinfo \<noteq> 0" "info_dentry pinfo \<noteq> 0" "info_flags pinfo \<noteq> 0"
    by auto
  obtain r1 s1 where add: "rfs_path_add w s (info_mnt pinfo) (info_dentry pinfo) = (r1, s1)"
    by (cases "rfs_path_add w s (info_mnt pinfo) (info_dentry pinfo)")
  from inv add show thesis
  proof (cases rule: rfs_path_add_cases)
    case (failed e)
    with run info f valid add have "r = Inl e" "s' = s1"
      by (simp_all add: redirfs_add_path_def)
    with failed show thesis by (intro that(1)) simp_all
  next
    case (found p)
    obtain rv s2 where op: "(if info_flags pinfo = REDIRFS_PATH_INCLUDE then rfs_path_add_include w s1 p f
                 else if info_flags pinfo = REDIRFS_PATH_EXCLUDE then rfs_path_add_exclude w s1 p f
                 else (- EINVAL, s1)) = (rv, s2)"
      by (cases "(if info_flags pinfo = REDIRFS_PATH_INCLUDE then rfs_path_add_include w s1 p f
                 else if info_flags pinfo = REDIRFS_PATH_EXCLUDE then rfs_path_add_exclude w s1 p f
                 else (- EINVAL, s1))")
    note eff = add_by_flags_effect [OF op]
    from inv found(2) have ne: "\<not> empty_chains (mem s p)" and cnt: "1 \<le> rpath_count (mem s p)"
      and p0: "p \<noteq> 0"
      by (auto simp add: registry_inv_def)
    have ne2: "\<not> empty_chains (mem s2 p)"
      using eff ne found(8) by (cases "rv = 0") (auto simp add: empty_chains_def split: if_splits)
    then have rem: "rfs_path_rem w s2 p = s2" using rfs_path_rem_effect [of w s2 p] by simp
    from run info f valid add found(1) op rem
    have res: "r = (if rv \<noteq> 0 then Inl rv else Inr p)"
      "s' = (if rv \<noteq> 0 then rfs_path_put s2 p else s2)"
      by (auto simp add: redirfs_add_path_def Let_def split: if_splits)
    show thesis
    proof (cases "rv = 0")
      case False
      with eff found have m2: "mem s2 = (mem s)(p := (mem s p)\<lparr>rpath_count := rpath_count (mem s p) + 1\<rparr>)"
        by simp
      from False res have "r = Inl rv" "s' = rfs_path_put s2 p" by simp_all
      with eff found False cnt p0 m2 show thesis
        by (intro failed) (auto simp add: rfs_path_put_def)
    next
      case True
      note ok = True
      with res have rs: "r = Inr p" "s' = s2" by simp_all
      show thesis
      proof (cases "f \<in> set (if info_flags pinfo = REDIRFS_PATH_INCLUDE then rpath_rinch (mem s p)
                  else rpath_rexch (mem s p))")
        case True
        with eff ok found have "s2 = s1" by (auto split: if_splits)
        with rs found True info show thesis by (intro noop [of p pinfo]) (auto split: if_splits)
      next
        case False
        with eff ok found rs info f show thesis
          by (intro added [of p pinfo]) (auto split: if_splits)
      qed
    qed
  next
    case created
    obtain rv s2 where op: "(if info_flags pinfo = REDIRFS_PATH_INCLUDE then rfs_path_add_include w s1 (brk s) f
                 else if info_flags pinfo = REDIRFS_PATH_EXCLUDE then rfs_path_add_exclude w s1 (brk s) f
                 else (- EINVAL, s1)) = (rv, s2)"
      by (cases "(if info_flags pinfo = REDIRFS_PATH_INCLUDE then rfs_path_add_include w s1 (brk s) f
                 else if info_flags pinfo = REDIRFS_PATH_EXCLUDE then rfs_path_add_exclude w s1 (brk s) f
                 else (- EINVAL, s1))")
    note eff = add_by_flags_effect [OF op]
    from inv have fresh: "brk s \<notin> set (rfs_path_list s)" and b0: "brk s \<noteq> 0"
      by (auto simp add: registry_inv_def)
    from run info f valid add created(1) op
    have res: "r = (if rv \<noteq> 0 then Inl rv else Inr (brk s))"
      "s' = (if rv \<noteq> 0 then rfs_path_put (rfs_path_rem w s2 (brk s)) (brk s) else rfs_path_rem w s2 (brk s))"
      by (auto simp add: redirfs_add_path_def Let_def split: if_splits)
    note rem = rfs_path_rem_effect [of w s2 "brk s"]
    show thesis
    proof (cases "rv = 0")
      case False
      with eff created have e2: "empty_chains (mem s2 (brk s))" "rpath_count (mem s2 (brk s)) = 2"
        by (simp_all add: empty_chains_def)
      from False res have "r = Inl rv" "s' = rfs_path_put (rfs_path_rem w s2 (brk s)) (brk s)"
        by simp_all
      with eff created False rem e2 fresh b0 show thesis
        by (intro failed) (auto simp add: rfs_path_put_def empty_chains_def remove1_snoc)
    next
      case True
      with eff created have upd: "f \<notin> set (rpath_rinch (mem s1 (brk s)))"
        "paths_nr s2 = (paths_nr s)(f := paths_nr s f + 1)"
        "mem s2 = (mem s1)(brk s := (if info_flags pinfo = REDIRFS_PATH_INCLUDE
                 then (mem s1 (brk s))\<lparr>rpath_rinch := [f]\<rparr>
                 else (mem s1 (brk s))\<lparr>rpath_rexch := [f]\<rparr>))"
        and fl: "info_flags pinfo = REDIRFS_PATH_INCLUDE \<or> info_flags pinfo = REDIRFS_PATH_EXCLUDE"
        by (auto split: if_splits)
      then have "\<not> empty_chains (mem s2 (brk s))" by (auto simp add: empty_chains_def)
      with rem have "rfs_path_rem w s2 (brk s) = s2" by simp
      with True res have "r = Inr (brk s)" "s' = s2" by simp_all
      with eff created upd fl info f show thesis
        by (intro that(4) [of pinfo]) (auto split: if_splits)
    qed
  qed
qed

lemma registry_inv_init: "registry_inv init_state"
  by (simp add: registry_inv_def init_state_def chains_ok_def empty_chains_def zeroed_def)

lemma registry_invI:
  assumes "distinct (rfs_path_list s)" "0 < brk s"
    "\<And>a. a \<in> set (rfs_path_list s) \<Longrightarrow>
       0 < a \<and> a < brk s \<and> \<not> empty_chains (mem s a) \<and> 1 \<le> rpath_count (mem s a)"
    "\<And>a. a < brk s \<Longrightarrow> chains_ok (mem s a)"
    "\<And>a. a < brk s \<Longrightarrow> a \<notin> set (rfs_path_list s) \<Longrightarrow> empty_chains (mem s a)"
  shows "registry_inv s"
  using assms by (simp add: registry_inv_def)

lemma registry_invD:
  assumes "registry_inv s"
  shows "distinct (rfs_path_list s)" "0 < brk s"
    "a \<in> set (rfs_path_list s) \<Longrightarrow>
       0 < a \<and> a < brk s \<and> \<not> empty_chains (mem s a) \<and> 1 \<le> rpath_count (mem s a)"
    "a < brk s \<Longrightarrow> chains_ok (mem s a)"
    "a < brk s \<Longrightarrow> a \<notin> set (rfs_path_list s) \<Longrightarrow> empty_chains (mem s a)"
  using assms by (simp_all add: registry_inv_def)

lemma registry_inv_add_path:
  assumes inv: "registry_inv s"
  shows "registry_inv (snd (redirfs_add_path w s f info))"
proof -
  obtain r s' where run: "redirfs_add_path w s f info = (r, s')"
    by (cases "redirfs_add_path w s f info")
  note D = registry_invD [OF inv]
  from inv run have "registry_inv s'"
  proof (cases rule: redirfs_add_path_cases)
    case (failed e)
    show ?thesis
    proof (rule registry_invI)
      fix a assume "a \<in> set (rfs_path_list s')"
      with failed D(3) [of a] show "0 < a \<and> a < brk s' \<and> \<not> empty_chains (mem s' a) \<and> 1 \<le> rpath_count (mem s' a)"
        by auto
    next
      fix a assume "a < brk s'"
      with failed D(4) [of a] show "chains_ok (mem s' a)"
        by (cases "a < brk s") (auto simp add: chains_ok_def empty_chains_def)
    next
      fix a assume "a < brk s'" "a \<notin> set (rfs_path_list s')"
      with failed D(5) [of a] show "empty_chains (mem s' a)"
        by (cases "a < brk s") auto
    qed (use failed D in auto)
  next
    case (noop p pinfo)
    show ?thesis
    proof (rule registry_invI)
      fix a assume "a \<in> set (rfs_path_list s')"
      with noop D(3) [of a] show "0 < a \<and> a < brk s' \<and> \<not> empty_chains (mem s' a) \<and> 1 \<le> rpath_count (mem s' a)"
        by (auto simp add: empty_chains_def)
    next
      fix a assume "a < brk s'"
      with noop D(4) [of a] show "chains_ok (mem s' a)"
        by (auto simp add: chains_ok_def)
    next
      fix a assume "a < brk s'" "a \<notin> set (rfs_path_list s')"
      with noop D(5) [of a] show "empty_chains (mem s' a)"
        by (auto simp add: empty_chains_def)
    qed (use noop D in auto)
  next
    case (added p pinfo)
    show ?thesis
    proof (rule registry_invI)
      fix a assume "a \<in> set (rfs_path_list s')"
      with added D(3) [of a] show "0 < a \<and> a < brk s' \<and> \<not> empty_chains (mem s' a) \<and> 1 \<le> rpath_count (mem s' a)"
        by (auto simp add: empty_chains_def)
    next
      fix a assume "a < brk s'"
      with added D(4) [of a] show "chains_ok (mem s' a)"
        by (auto simp add: chains_ok_def)
    next
      fix a assume "a < brk s'" "a \<notin> set (rfs_path_list s')"
      with added D(5) [of a] show "empty_chains (mem s' a)"
        by (auto simp add: empty_chains_def)
    qed (use added D in auto)
  next
    case (created pinfo)
    have fresh: "brk s \<notin> set (rfs_path_list s)" using D(3) [of "brk s"] by auto
    show ?thesis
    proof (rule registry_invI)
      fix a assume "a \<in> set (rfs_path_list s')"
      with created D(3) [of a] D(2) show "0 < a \<and> a < brk s' \<and> \<not> empty_chains (mem s' a) \<and> 1 \<le> rpath_count (mem s' a)"
        by (cases "a = brk s") (auto simp add: empty_chains_def)
    next
      fix a assume "a < brk s'"
      with created D(4) [of a] show "chains_ok (mem s' a)"
        by (cases "a = brk s") (auto simp add: chains_ok_def)
    next
      fix a assume "a < brk s'" "a \<notin> set (rfs_path_list s')"
      with created D(5) [of a] show "empty_chains (mem s' a)"
        by (cases "a = brk s") auto
    qed (use created D fresh in auto)
  qed
  with run show ?thesis by simp
qed

lemma redirfs_rem_path_effect:
  assumes run: "redirfs_rem_path w s f p = (rv, s')"
  shows "brk s' = brk s \<and> (\<forall>a. a \<noteq> p \<longrightarrow> mem s' a = mem s a) \<and>
     rpath_mnt (mem s' p) = rpath_mnt (mem s p) \<and>
     rpath_dentry (mem s' p) = rpath_dentry (mem s p) \<and>
     rpath_id (mem s' p) = rpath_id (mem s p) \<and>
     (rv \<noteq> 0 \<longrightarrow> paths_nr s' = paths_nr s \<and>
        rpath_rinch (mem s' p) = rpath_rinch (mem s p) \<and>
        rpath_rexch (mem s' p) = rpath_rexch (mem s p)) \<and>
     (rv = 0 \<longrightarrow> f \<noteq> 0 \<and> p \<noteq> 0 \<and> paths_nr s' = (paths_nr s)(f := paths_nr s f - 1) \<and>
        (if f \<in> set (rpath_rinch (mem s p))
         then rpath_rinch (mem s' p) = remove1 f (rpath_rinch (mem s p)) \<and>
              rpath_rexch (mem s' p) = rpath_rexch (mem s p)
         else f \<in> set (rpath_rexch (mem s p)) \<and>
              rpath_rinch (mem s' p) = rpath_rinch (mem s p) \<and>
              rpath_rexch (mem s' p) = remove1 f (rpath_rexch (mem s p)))) \<and>
     rfs_path_list s' = (if f \<noteq> 0 \<and> p \<noteq> 0 \<and> empty_chains (mem s' p)
        then remove1 p (rfs_path_list s) else rfs_path_list s) \<and>
     (rpath_count (mem s p) \<noteq> 0 \<longrightarrow> bug s' = bug s)"
proof (cases "f = 0 \<or> p = 0")
  case True
  with run have "rv = - EINVAL" "s' = s" by (auto simp add: redirfs_rem_path_def)
  with True show ?thesis by auto
next
  case False
  then have fp: "f \<noteq> 0" "p \<noteq> 0" by auto
  obtain rv1 s1 where op:
    "(if rfs_chain_find (rpath_rinch (mem s p)) f \<noteq> - 1 then rfs_path_rem_include w s p f
      else if rfs_chain_find (rpath_rexch (mem s p)) f \<noteq> - 1 then rfs_path_rem_exclude w s p f
      else (- EINVAL, s)) = (rv1, s1)"
    by (cases "(if rfs_chain_find (rpath_rinch (mem s p)) f \<noteq> - 1 then rfs_path_rem_include w s p f
      else if rfs_chain_find (rpath_rexch (mem s p)) f \<noteq> - 1 then rfs_path_rem_exclude w s p f
      else (- EINVAL, s))")
  with run fp have res: "rv = rv1" "s' = rfs_path_rem w s1 p"
    by (auto simp add: redirfs_rem_path_def)
  note rem = rfs_path_rem_effect [of w s1 p]
  have eff: "rfs_path_list s1 = rfs_path_list s \<and> brk s1 = brk s \<and> bug s1 = bug s \<and>
     (\<forall>a. a \<noteq> p \<longrightarrow> mem s1 a = mem s a) \<and>
     rpath_mnt (mem s1 p) = rpath_mnt (mem s p) \<and>
     rpath_dentry (mem s1 p) = rpath_dentry (mem s p) \<and>
     rpath_id (mem s1 p) = rpath_id (mem s p) \<and>
     rpath_count (mem s1 p) = rpath_count (mem s p) \<and>
     (rv1 \<noteq> 0 \<longrightarrow> paths_nr s1 = paths_nr s \<and>
        rpath_rinch (mem s1 p) = rpath_rinch (mem s p) \<and>
        rpath_rexch (mem s1 p) = rpath_rexch (mem s p)) \<and>
     (rv1 = 0 \<longrightarrow> paths_nr s1 = (paths_nr s)(f := paths_nr s f - 1) \<and>
        (if f \<in> set (rpath_rinch (mem s p))
         then rpath_rinch (mem s1 p) = remove1 f (rpath_rinch (mem s p)) \<and>
              rpath_rexch (mem s1 p) = rpath_rexch (mem s p)
         else f \<in> set (rpath_rexch (mem s p)) \<and>
              rpath_rinch (mem s1 p) = rpath_rinch (mem s p) \<and>
              rpath_rexch (mem s1 p) = remove1 f (rpath_rexch (mem s p))))"
  proof (cases "f \<in> set (rpath_rinch (mem s p))")
    case True
    with op have "rfs_path_rem_include w s p f = (rv1, s1)" by simp
    from rfs_path_rem_include_effect [OF this] True show ?thesis by (cases "rv1 = 0") auto
  next
    case False
    note ni = False
    show ?thesis
    proof (cases "f \<in> set (rpath_rexch (mem s p))")
      case True
      with op ni have "rfs_path_rem_exclude w s p f = (rv1, s1)" by simp
      from rfs_path_rem_exclude_effect [OF this] True ni show ?thesis by (cases "rv1 = 0") auto
    next
      case False
      with op ni show ?thesis by auto
    qed
  qed
  show ?thesis
  proof (cases "empty_chains (mem s1 p)")
    case True
    with rem eff res fp show ?thesis
      by (cases "rv1 = 0") (auto simp add: empty_chains_def split: if_splits)
  next
    case False
    with rem have "rfs_path_rem w s1 p = s1" by simp
    with eff res fp False show ?thesis
      by (cases "rv1 = 0") (auto simp add: empty_chains_def split: if_splits)
  qed
qed

lemma registry_inv_rem_path:
  assumes inv: "registry_inv s"
  shows "registry_inv (snd (redirfs_rem_path w s f p))"
proof -
  obtain rv s' where run: "redirfs_rem_path w s f p = (rv, s')"
    by (cases "redirfs_rem_path w s f p")
  note D = registry_invD [OF inv]
  note E = redirfs_rem_path_effect [OF run]
  have sub: "set (rfs_path_list s') \<subseteq> set (rfs_path_list s)"
    using E set_remove1_subset [of p "rfs_path_list s"] by (auto split: if_splits)
  have ch: "set (rpath_rinch (mem s' p)) \<subseteq> set (rpath_rinch (mem s p)) \<and>
      set (rpath_rexch (mem s' p)) \<subseteq> set (rpath_rexch (mem s p)) \<and>
      (distinct (rpath_rinch (mem s p)) \<longrightarrow> distinct (rpath_rinch (mem s' p))) \<and>
      (distinct (rpath_rexch (mem s p)) \<longrightarrow> distinct (rpath_rexch (mem s' p)))"
    using E set_remove1_subset [of f "rpath_rinch (mem s p)"]
      set_remove1_subset [of f "rpath_rexch (mem s p)"]
    by (cases "rv = 0") (auto split: if_splits)
  have "registry_inv s'"
  proof (rule registry_invI)
    show "distinct (rfs_path_list s')" using E D(1) by (auto split: if_splits)
  next
    show "0 < brk s'" using E D(2) by simp
  next
    fix a assume a: "a \<in> set (rfs_path_list s')"
    with sub have a0: "a \<in> set (rfs_path_list s)" by auto
    show "0 < a \<and> a < brk s' \<and> \<not> empty_chains (mem s' a) \<and> 1 \<le> rpath_count (mem s' a)"
    proof (cases "a = p")
      case False
      with E D(3) [OF a0] show ?thesis by simp
    next
      case True
      from D(3) [OF a0] True have p0: "p \<noteq> 0" "rpath_count (mem s p) \<noteq> 0" by auto
      have ne: "\<not> empty_chains (mem s' p)"
      proof
        assume em: "empty_chains (mem s' p)"
        then have "rfs_path_list s' = remove1 p (rfs_path_list s) \<or> f = 0"
          using E p0 by (auto split: if_splits)
        moreover have "f = 0 \<Longrightarrow> s' = s" using run by (simp add: redirfs_rem_path_def)
        ultimately show False using a True D(1) D(3) [OF a0] em by auto
      qed
      then have "rfs_path_list s' = rfs_path_list s" using E by (auto split: if_splits)
      have "s' = s \<or> rpath_count (mem s' p) = rpath_count (mem s p)"
      proof (cases "f = 0")
        case True
        then show ?thesis using run by (simp add: redirfs_rem_path_def)
      next
        case False
        obtain rv1 s1 where op:
          "(if rfs_chain_find (rpath_rinch (mem s p)) f \<noteq> - 1 then rfs_path_rem_include w s p f
            else if rfs_chain_find (rpath_rexch (mem s p)) f \<noteq> - 1 then rfs_path_rem_exclude w s p f
            else (- EINVAL, s)) = (rv1, s1)"
          by (cases "(if rfs_chain_find (rpath_rinch (mem s p)) f \<noteq> - 1 then rfs_path_rem_include w s p f
            else if rfs_chain_find (rpath_rexch (mem s p)) f \<noteq> - 1 then rfs_path_rem_exclude w s p f
            else (- EINVAL, s))")
        with run False p0 have res: "s' = rfs_path_rem w s1 p"
          by (auto simp add: redirfs_rem_path_def)
        have c1: "rpath_count (mem s1 p) = rpath_count (mem s p)"
          using op rfs_path_rem_include_effect [of w s p f rv1 s1]
            rfs_path_rem_exclude_effect [of w s p f rv1 s1]
          by (cases "rv1 = 0") (auto split: if_splits)
        have "\<not> empty_chains (mem s1 p)"
          using ne res rfs_path_rem_effect [of w s1 p] by (auto simp add: empty_chains_def)
        then have "s' = s1" using res rfs_path_rem_effect [of w s1 p] by simp
        with c1 show ?thesis by simp
      qed
      with D(3) [OF a0] True ne E show ?thesis by auto
    qed
  next
    fix a assume "a < brk s'"
    then have "a < brk s" using E by simp
    from D(4) [OF this] show "chains_ok (mem s' a)"
    proof (cases "a = p")
      case False
      with E \<open>chains_ok (mem s a)\<close> show ?thesis by simp
    next
      case True
      with ch \<open>chains_ok (mem s a)\<close> show ?thesis
        by (auto simp add: chains_ok_def)
    qed
  next
    fix a assume a: "a < brk s'" "a \<notin> set (rfs_path_list s')"
    then have lt: "a < brk s" using E by simp
    show "empty_chains (mem s' a)"
    proof (cases "a = p")
      case False
      with a E have "a \<notin> set (rfs_path_list s)" by (auto split: if_splits)
      from D(5) [OF lt this] False E show ?thesis by simp
    next
      case True
      show ?thesis
      proof (cases "p \<in> set (rfs_path_list s)")
        case False
        from D(5) [OF lt] False True have "empty_chains (mem s p)" by simp
        with ch \<open>a = p\<close> show ?thesis by (auto simp add: empty_chains_def)
      next
        case True
        with a \<open>a = p\<close> E show ?thesis by (auto split: if_splits)
      qed
    qed
  qed
  with run show ?thesis by simp
qed

lemma count_remove1: "\<not> P p \<Longrightarrow> length (filter P (remove1 p l)) = length (filter P l)"
  by (induction l) auto

lemma count_cong: "(\<And>a. a \<in> set l \<Longrightarrow> Q a = P a) \<Longrightarrow> length (filter Q l) = length (filter P l)"
  by (induction l) auto

lemma count_flip:
  assumes "distinct l" "p \<in> set l" "\<not> P p" "Q p" "\<And>a. a \<noteq> p \<Longrightarrow> Q a = P a"
  shows "length (filter Q l) = length (filter P l) + 1"
  using assms(1,2)
proof (induction l)
  case Nil
  then show ?case by simp
next
  case (Cons x xs)
  show ?case
  proof (cases "x = p")
    case True
    with Cons.prems have "p \<notin> set xs" by simp
    then have "length (filter Q xs) = length (filter P xs)"
      by (intro count_cong assms(5)) auto
    with True assms(3,4) show ?thesis by simp
  next
    case False
    with Cons have "length (filter Q xs) = length (filter P xs) + 1" by simp
    with False assms(5) [of x] show ?thesis by simp
  qed
qed

lemma nr_ok_init: "nr_ok init_state g"
  by (simp add: nr_ok_def init_state_def)

lemma nr_ok_add_path:
  assumes inv: "registry_inv s" and nr: "nr_ok s g"
    and run: "redirfs_add_path w s f info = (r, s')"
  shows "nr_ok s' g"
proof -
  note D = registry_invD [OF inv]
  from inv run show ?thesis
  proof (cases rule: redirfs_add_path_cases)
    case (failed e)
    have "length (filter (cites (mem s') g) (rfs_path_list s)) =
        length (filter (cites (mem s) g) (rfs_path_list s))"
      using failed D(3) by (intro count_cong) (auto simp add: cites_def)
    with failed nr show ?thesis by (simp add: nr_ok_def)
  next
    case (noop p pinfo)
    have "length (filter (cites (mem s') g) (rfs_path_list s)) =
        length (filter (cites (mem s) g) (rfs_path_list s))"
      using noop by (intro count_cong) (auto simp add: cites_def)
    with noop nr show ?thesis by (simp add: nr_ok_def)
  next
    case (added p pinfo)
    show ?thesis
    proof (cases "g = f")
      case True
      have "length (filter (cites (mem s') f) (rfs_path_list s)) =
          length (filter (cites (mem s) f) (rfs_path_list s)) + 1"
        using D(1) added by (intro count_flip [of _ p]) (auto simp add: cites_def)
      with added nr True show ?thesis by (simp add: nr_ok_def)
    next
      case False
      have "length (filter (cites (mem s') g) (rfs_path_list s)) =
          length (filter (cites (mem s) g) (rfs_path_list s))"
        using added False by (intro count_cong) (auto simp add: cites_def)
      with added nr False show ?thesis by (simp add: nr_ok_def)
    qed
  next
    case (created pinfo)
    have fresh: "brk s \<notin> set (rfs_path_list s)" using D(3) [of "brk s"] by auto
    have "length (filter (cites (mem s') g) (rfs_path_list s)) =
        length (filter (cites (mem s) g) (rfs_path_list s))"
    proof (rule count_cong)
      fix a assume "a \<in> set (rfs_path_list s)"
      with fresh have "a \<noteq> brk s" by auto
      with created show "cites (mem s') g a = cites (mem s) g a" by (simp add: cites_def)
    qed
    with created nr show ?thesis by (auto simp add: nr_ok_def cites_def)
  qed
qed

lemma nr_ok_rem_path:
  assumes inv: "registry_inv s" and nr: "nr_ok s g" and p: "p < brk s"
    and run: "redirfs_rem_path w s f p = (rv, s')"
  shows "nr_ok s' g"
proof -
  note D = registry_invD [OF inv]
  note E = redirfs_rem_path_effect [OF run]
  from D(4) [OF p] have ok: "chains_ok (mem s p)" .
  have list: "rfs_path_list s' = rfs_path_list s \<or>
      rfs_path_list s' = remove1 p (rfs_path_list s) \<and> \<not> cites (mem s') g p"
    using E by (auto simp add: empty_chains_def cites_def split: if_splits)
  have len: "length (filter (cites (mem s') g) (rfs_path_list s')) =
      length (filter (cites (mem s') g) (rfs_path_list s))"
    using list count_remove1 [of "cites (mem s') g" p "rfs_path_list s"] by auto
  show ?thesis
  proof (cases "rv = 0")
    case False
    have "length (filter (cites (mem s') g) (rfs_path_list s)) =
        length (filter (cites (mem s) g) (rfs_path_list s))"
    proof (rule count_cong)
      fix a show "cites (mem s') g a = cites (mem s) g a"
        using E False by (cases "a = p") (auto simp add: cites_def)
    qed
    with len E False nr show ?thesis by (simp add: nr_ok_def)
  next
    case True
    with E have cited: "cites (mem s) f p" by (auto simp add: cites_def split: if_splits)
    then have reg: "p \<in> set (rfs_path_list s)"
      using D(5) [OF p] by (cases "p \<in> set (rfs_path_list s)") (auto simp add: cites_def empty_chains_def)
    have after: "\<not> cites (mem s') f p"
      using E True ok by (auto simp add: cites_def chains_ok_def split: if_splits)
    have other: "\<And>h. h \<noteq> f \<Longrightarrow> cites (mem s') h p = cites (mem s) h p"
      using E True by (auto simp add: cites_def split: if_splits)
    have rest: "\<And>a h. a \<noteq> p \<Longrightarrow> cites (mem s') h a = cites (mem s) h a"
      using E by (simp add: cites_def)
    show ?thesis
    proof (cases "g = f")
      case True
      have "length (filter (cites (mem s) f) (rfs_path_list s)) =
          length (filter (cites (mem s') f) (rfs_path_list s)) + 1"
        using D(1) reg after cited rest by (intro count_flip [of _ p]) auto
      with len E \<open>rv = 0\<close> nr True show ?thesis by (simp add: nr_ok_def)
    next
      case False
      have "length (filter (cites (mem s') g) (rfs_path_list s)) =
          length (filter (cites (mem s) g) (rfs_path_list s))"
      proof (rule count_cong)
        fix a show "cites (mem s') g a = cites (mem s) g a"
          using other [OF False] rest [of a g] by (cases "a = p") auto
      qed
      with len E \<open>rv = 0\<close> nr False show ?thesis by (simp add: nr_ok_def)
    qed
  qed
qed

lemma redirfs_rem_path_count:
  assumes run: "redirfs_rem_path w s f p = (rv, s')"
    and ne: "\<not> empty_chains (mem s' p)"
  shows "rpath_count (mem s' p) = rpath_count (mem s p)"
proof (cases "f = 0 \<or> p = 0")
  case True
  with run show ?thesis by (auto simp add: redirfs_rem_path_def)
next
  case False
  obtain rv1 s1 where op:
    "(if rfs_chain_find (rpath_rinch (mem s p)) f \<noteq> - 1 then rfs_path_rem_include w s p f
      else if rfs_chain_find (rpath_rexch (mem s p)) f \<noteq> - 1 then rfs_path_rem_exclude w s p f
      else (- EINVAL, s)) = (rv1, s1)"
    by (cases "(if rfs_chain_find (rpath_rinch (mem s p)) f \<noteq> - 1 then rfs_path_rem_include w s p f
      else if rfs_chain_find (rpath_rexch (mem s p)) f \<noteq> - 1 then rfs_path_rem_exclude w s p f
      else (- EINVAL, s))")
  with run False have res: "s' = rfs_path_rem w s1 p"
    by (auto simp add: redirfs_rem_path_def)
  have c1: "rpath_count (mem s1 p) = rpath_count (mem s p)"
    using op rfs_path_rem_include_effect [of w s p f rv1 s1]
      rfs_path_rem_exclude_effect [of w s p f rv1 s1]
    by (cases "rv1 = 0") (auto split: if_splits)
  have "\<not> empty_chains (mem s1 p)"
    using ne res rfs_path_rem_effect [of w s1 p] by (auto simp add: empty_chains_def)
  then have "s' = s1" using res rfs_path_rem_effect [of w s1 p] by simp
  with c1 show ?thesis by simp
qed

lemma get_paths_loop_effect:
  assumes "get_paths_loop s l f = (ps, s1)"
    and "\<forall>a \<in> set l. a \<noteq> 0 \<and> 1 \<le> rpath_count (mem s a)" and "distinct l"
  shows "set ps \<subseteq> set l \<and> distinct ps \<and> rfs_path_list s1 = rfs_path_list s \<and> brk s1 = brk s \<and>
     paths_nr s1 = paths_nr s \<and>
     (\<forall>a. rpath_rinch (mem s1 a) = rpath_rinch (mem s a) \<and>
          rpath_rexch (mem s1 a) = rpath_rexch (mem s a) \<and>
          rpath_count (mem s1 a) = rpath_count (mem s a) + (if a \<in> set ps then 1 else 0))"
  using assms
proof (induction l arbitrary: s ps)
  case Nil
  then show ?case by simp
next
  case (Cons x xs)
  show ?case
  proof (cases "cites (mem s) f x")
    case False
    with Cons.prems have "get_paths_loop s xs f = (ps, s1)" by (simp add: cites_def)
    from Cons.IH [OF this] Cons.prems show ?thesis by auto
  next
    case True
    let ?s = "rfs_path_get s x"
    obtain ps' where loop: "get_paths_loop ?s xs f = (ps', s1)" and ps: "ps = x # ps'"
      using Cons.prems True by (auto simp add: cites_def split: prod.splits if_splits)
    from Cons.prems have x: "x \<noteq> 0" "rpath_count (mem s x) \<noteq> 0" "x \<notin> set xs" by auto
    then have g: "rfs_path_list ?s = rfs_path_list s" "brk ?s = brk s" "paths_nr ?s = paths_nr s"
      "mem ?s = (mem s)(x := (mem s x)\<lparr>rpath_count := rpath_count (mem s x) + 1\<rparr>)"
      by (simp_all add: rfs_path_get_def)
    have pre: "\<forall>a \<in> set xs. a \<noteq> 0 \<and> 1 \<le> rpath_count (mem ?s a)"
      using Cons.prems g x by auto
    from Cons.IH [OF loop pre] Cons.prems have ih:
      "set ps' \<subseteq> set xs" "distinct ps'" "rfs_path_list s1 = rfs_path_list ?s" "brk s1 = brk ?s"
      "paths_nr s1 = paths_nr ?s"
      "\<forall>a. rpath_rinch (mem s1 a) = rpath_rinch (mem ?s a) \<and>
          rpath_rexch (mem s1 a) = rpath_rexch (mem ?s a) \<and>
          rpath_count (mem s1 a) = rpath_count (mem ?s a) + (if a \<in> set ps' then 1 else 0)"
      by auto
    have "x \<notin> set ps'" using ih(1) x(3) by auto
    with ih g ps x show ?thesis by auto
  qed
qed

lemma registry_inv_chains_cong:
  assumes inv: "registry_inv s"
    and same: "rfs_path_list s1 = rfs_path_list s" "brk s1 = brk s"
      "\<forall>a. rpath_rinch (mem s1 a) = rpath_rinch (mem s a) \<and>
           rpath_rexch (mem s1 a) = rpath_rexch (mem s a)"
    and cnt: "\<forall>a \<in> set (rfs_path_list s). 1 \<le> rpath_count (mem s1 a)"
  shows "registry_inv s1"
proof (rule registry_invI)
  note D = registry_invD [OF inv]
  show "distinct (rfs_path_list s1)" "0 < brk s1" using D same by simp_all
  fix a
  show "0 < a \<and> a < brk s1 \<and> \<not> empty_chains (mem s1 a) \<and> 1 \<le> rpath_count (mem s1 a)"
    if "a \<in> set (rfs_path_list s1)"
    using that D(3) [of a] same cnt by (simp add: empty_chains_def)
  show "chains_ok (mem s1 a)" if "a < brk s1"
    using that D(4) [of a] same by (simp add: chains_ok_def)
  show "empty_chains (mem s1 a)" if "a < brk s1" "a \<notin> set (rfs_path_list s1)"
    using that D(5) [of a] same by (simp add: empty_chains_def)
qed

lemma nr_ok_chains_cong:
  assumes "nr_ok s g" "rfs_path_list s1 = rfs_path_list s" "paths_nr s1 = paths_nr s"
    "\<forall>a. rpath_rinch (mem s1 a) = rpath_rinch (mem s a) \<and>
         rpath_rexch (mem s1 a) = rpath_rexch (mem s a)"
  shows "nr_ok s1 g"
proof -
  have "cites (mem s1) g = cites (mem s) g" using assms(4) by (simp add: cites_def fun_eq_iff)
  with assms show ?thesis by (simp add: nr_ok_def)
qed

lemma redirfs_get_paths_holding:
  assumes inv: "registry_inv s" and run: "get_paths_loop s (rfs_path_list s) f = (ps, s1)"
  shows "holding ps s1 \<and> distinct ps \<and> (nr_ok s g \<longrightarrow> nr_ok s1 g)"
proof -
  note D = registry_invD [OF inv]
  have pre: "\<forall>a \<in> set (rfs_path_list s). a \<noteq> 0 \<and> 1 \<le> rpath_count (mem s a)"
    using D(3) by auto
  note E = get_paths_loop_effect [OF run pre D(1)]
  have "\<forall>a \<in> set (rfs_path_list s). 1 \<le> rpath_count (mem s1 a)"
  proof
    fix a assume "a \<in> set (rfs_path_list s)"
    from D(3) [OF this] E show "1 \<le> rpath_count (mem s1 a)" by simp
  qed
  with E have inv1: "registry_inv s1"
    by (intro registry_inv_chains_cong [OF inv]) auto
  have "\<forall>p \<in> set ps. p < brk s1 \<and> (p \<in> set (rfs_path_list s1) \<longrightarrow> 2 \<le> rpath_count (mem s1 p))"
  proof
    fix p assume p: "p \<in> set ps"
    with E have "p \<in> set (rfs_path_list s)" by auto
    from D(3) [OF this] p E show "p < brk s1 \<and> (p \<in> set (rfs_path_list s1) \<longrightarrow> 2 \<le> rpath_count (mem s1 p))"
      by auto
  qed
  with inv1 E show ?thesis
    using nr_ok_chains_cong [of s g s1] by (auto simp add: holding_def)
qed

lemma holding_rem_path:
  assumes h: "holding ps s" and p: "p < brk s"
    and run: "redirfs_rem_path w s f p = (rv, s')"
  shows "holding ps s'"
proof -
  from h have inv: "registry_inv s" by (simp add: holding_def)
  note E = redirfs_rem_path_effect [OF run]
  have inv': "registry_inv s'" using registry_inv_rem_path [OF inv, of w f p] run by simp
  note D' = registry_invD [OF inv']
  have "\<forall>q \<in> set ps. q < brk s' \<and> (q \<in> set (rfs_path_list s') \<longrightarrow> 2 \<le> rpath_count (mem s' q))"
  proof (intro ballI conjI impI)
    fix q assume q: "q \<in> set ps"
    with h E show "q < brk s'" by (simp add: holding_def)
    assume reg': "q \<in> set (rfs_path_list s')"
    then have reg: "q \<in> set (rfs_path_list s)"
      using E set_remove1_subset [of p "rfs_path_list s"] by (auto split: if_splits)
    with h q have two: "2 \<le> rpath_count (mem s q)" by (simp add: holding_def)
    show "2 \<le> rpath_count (mem s' q)"
    proof (cases "q = p")
      case False
      with E two show ?thesis by simp
    next
      case True
      from D'(3) [OF reg'] True have "\<not> empty_chains (mem s' p)" by simp
      from redirfs_rem_path_count [OF run this] two True show ?thesis by simp
    qed
  qed
  with inv' show ?thesis by (simp add: holding_def)
qed

lemma rem_paths_loop_holding:
  assumes "rem_paths_loop w s f qs rv0 = (rv, s')" and "holding ps s" and "set qs \<subseteq> set ps"
    and "nr_ok s g"
  shows "holding ps s' \<and> nr_ok s' g"
  using assms
proof (induction qs arbitrary: s rv0)
  case Nil
  then show ?case by simp
next
  case (Cons q qs)
  show ?case
  proof (cases "q = 0")
    case True
    with Cons.prems show ?thesis by simp
  next
    case False
    obtain rv1 s1 where rem: "redirfs_rem_path w s f q = (rv1, s1)"
      by (cases "redirfs_rem_path w s f q")
    from Cons.prems have q: "q < brk s" and inv: "registry_inv s" by (auto simp add: holding_def)
    have h1: "holding ps s1" using holding_rem_path [OF Cons.prems(2) q rem] .
    have n1: "nr_ok s1 g" using nr_ok_rem_path [OF inv Cons.prems(4) q rem] .
    show ?thesis
    proof (cases "rv1 = 0")
      case False
      with Cons.prems(1) rem \<open>q \<noteq> 0\<close> have "s' = s1" by simp
      with h1 n1 show ?thesis by simp
    next
      case True
      with Cons.prems(1) rem \<open>q \<noteq> 0\<close> have "rem_paths_loop w s1 f qs rv1 = (rv, s')" by simp
      from Cons.IH [OF this h1 _ n1] Cons.prems(3) show ?thesis by simp
    qed
  qed
qed

lemma redirfs_put_paths_holding:
  assumes "holding ps s" and "distinct ps" and "nr_ok s g"
  shows "registry_inv (redirfs_put_paths s ps) \<and> nr_ok (redirfs_put_paths s ps) g"
  using assms
proof (induction ps arbitrary: s)
  case Nil
  then show ?case by (simp add: holding_def)
next
  case (Cons p ps)
  from Cons.prems have inv: "registry_inv s" by (simp add: holding_def)
  show ?case
  proof (cases "p = 0")
    case True
    with inv Cons.prems show ?thesis by simp
  next
    case False
    let ?s = "rfs_path_put s p"
    have f: "rfs_path_list ?s = rfs_path_list s" "brk ?s = brk s" "paths_nr ?s = paths_nr s"
      "\<forall>a. rpath_rinch (mem ?s a) = rpath_rinch (mem s a) \<and>
           rpath_rexch (mem ?s a) = rpath_rexch (mem s a)"
      "\<forall>a. a \<noteq> p \<longrightarrow> rpath_count (mem ?s a) = rpath_count (mem s a)"
      "rpath_count (mem s p) - 1 \<le> rpath_count (mem ?s p)"
      by (simp_all add: rfs_path_put_def)
    note D = registry_invD [OF inv]
    have cnt: "\<forall>a \<in> set (rfs_path_list s). 1 \<le> rpath_count (mem ?s a)"
    proof
      fix a assume a: "a \<in> set (rfs_path_list s)"
      show "1 \<le> rpath_count (mem ?s a)"
      proof (cases "a = p")
        case True
        with a Cons.prems(1) have "2 \<le> rpath_count (mem s p)" by (simp add: holding_def)
        with f(6) True show ?thesis by simp
      next
        case False
        with f(5) D(3) [OF a] show ?thesis by simp
      qed
    qed
    have inv1: "registry_inv ?s"
      using f cnt by (intro registry_inv_chains_cong [OF inv]) auto
    have "\<forall>q \<in> set ps. q < brk ?s \<and> (q \<in> set (rfs_path_list ?s) \<longrightarrow> 2 \<le> rpath_count (mem ?s q))"
      using Cons.prems(1,2) f by (auto simp add: holding_def)
    with inv1 have h1: "holding ps ?s" by (simp add: holding_def)
    have n1: "nr_ok ?s g" using nr_ok_chains_cong [OF Cons.prems(3) f(1) f(3) f(4)] .
    from Cons.IH [OF h1 _ n1] Cons.prems(2) False show ?thesis by simp
  qed
qed

lemma registry_inv_rem_paths:
  assumes inv: "registry_inv s" and nr: "nr_ok s g"
  shows "registry_inv (snd (redirfs_rem_paths w s f junk)) \<and>
         nr_ok (snd (redirfs_rem_paths w s f junk)) g"
proof (cases "f = 0 \<or> kalloc w s A_paths \<noteq> 0")
  case True
  then have "snd (redirfs_rem_paths w s f junk) = s"
    by (auto simp add: redirfs_rem_paths_def redirfs_get_paths_def)
  with inv nr show ?thesis by simp
next
  case False
  obtain ps s1 where get: "get_paths_loop s (rfs_path_list s) f = (ps, s1)"
    by (cases "get_paths_loop s (rfs_path_list s) f")
  obtain rv s2 where loop: "rem_paths_loop w s1 f ps junk = (rv, s2)"
    by (cases "rem_paths_loop w s1 f ps junk")
  from False get loop have res: "snd (redirfs_rem_paths w s f junk) = redirfs_put_paths s2 ps"
    by (simp add: redirfs_rem_paths_def redirfs_get_paths_def)
  from redirfs_get_paths_holding [OF inv get, of g] nr
  have h1: "holding ps s1" "distinct ps" "nr_ok s1 g" by simp_all
  from rem_paths_loop_holding [OF loop h1(1) _ h1(3)]
  have h2: "holding ps s2" "nr_ok s2 g" by simp_all
  from redirfs_put_paths_holding [OF h2(1) h1(2) h2(2)] res show ?thesis by simp
qed

lemma reachable_inv: "reachable s \<Longrightarrow> registry_inv s \<and> nr_ok s g"
proof (induction rule: reachable.induct)
  case init
  show ?case by (simp add: registry_inv_init nr_ok_init)
next
  case (add s w f info)
  then show ?case
    using registry_inv_add_path [of s w f info]
      nr_ok_add_path [of s g w f info "fst (redirfs_add_path w s f info)" "snd (redirfs_add_path w s f info)"]
    by simp
next
  case (rem s p w f)
  then show ?case
    using registry_inv_rem_path [of s w f p]
      nr_ok_rem_path [of s g p w f "fst (redirfs_rem_path w s f p)" "snd (redirfs_rem_path w s f p)"]
    by simp
next
  case (rem_all s w f junk)
  then show ?case using registry_inv_rem_paths [of s g w f junk] by simp
qed

lemma one_path_state_fields:
  "rfs_path_list one_path_state = [1] \<and> brk one_path_state = 2 \<and>
   rpath_rinch (mem one_path_state 1) = [7] \<and> rpath_rexch (mem one_path_state 1) = [] \<and>
   rpath_mnt (mem one_path_state 1) = 1 \<and> rpath_dentry (mem one_path_state 1) = 11 \<and>
   paths_nr one_path_state 7 = 1"
  by (simp add: one_path_state_def path_defs world_ok_def include_info_def init_state_def Let_def)

lemma reachable_one_path_state: "reachable one_path_state"
  unfolding one_path_state_def by (rule reachable.add) (rule reachable.init)

lemma redirfs_add_path_opposite:
  assumes inv: "registry_inv s" and f: "f \<noteq> 0"
    and valid: "info_mnt pinfo \<noteq> 0" "info_dentry pinfo \<noteq> 0"
    and q: "q = path_list_find (mem s) (rfs_path_list s) (info_mnt pinfo) (info_dentry pinfo)" "q \<noteq> 0"
    and opp: "info_flags pinfo = REDIRFS_PATH_INCLUDE \<and> f \<in> set (rpath_rexch (mem s q)) \<or>
              info_flags pinfo = REDIRFS_PATH_EXCLUDE \<and> f \<in> set (rpath_rinch (mem s q))"
  shows "fst (redirfs_add_path w s f (Some pinfo)) = Inl (- EEXIST)"
proof -
  from q path_list_find_cases [of "mem s" "rfs_path_list s" "info_mnt pinfo" "info_dentry pinfo"]
  have reg: "q \<in> set (rfs_path_list s)" by auto
  note D = registry_invD [OF inv]
  from D(3) [OF reg] have lt: "q < brk s" and cnt: "rpath_count (mem s q) \<noteq> 0"
    and ne: "rpath_rinch (mem s q) \<noteq> [] \<or> rpath_rexch (mem s q) \<noteq> []"
    by (auto simp add: empty_chains_def)
  from D(4) [OF lt] opp have other:
    "info_flags pinfo = REDIRFS_PATH_INCLUDE \<longrightarrow> f \<notin> set (rpath_rinch (mem s q))"
    "info_flags pinfo = REDIRFS_PATH_EXCLUDE \<longrightarrow> f \<notin> set (rpath_rexch (mem s q))"
    by (auto simp add: chains_ok_def)
  have add: "rfs_path_add w s (info_mnt pinfo) (info_dentry pinfo) = (Inr q, rfs_path_get s q)"
    using q by (simp add: rfs_path_add_def rfs_path_find_def Let_def)
  have get: "rpath_rinch (mem (rfs_path_get s q) q) = rpath_rinch (mem s q)"
    "rpath_rexch (mem (rfs_path_get s q) q) = rpath_rexch (mem s q)"
    using q cnt by (simp_all add: rfs_path_get_def)
  from opp show ?thesis
  proof
    assume a: "info_flags pinfo = REDIRFS_PATH_INCLUDE \<and> f \<in> set (rpath_rexch (mem s q))"
    with other get have "rfs_path_add_include w (rfs_path_get s q) q f = (- EEXIST, rfs_path_get s q)"
      by (simp add: rfs_path_add_include_def)
    with a f valid add show ?thesis
      by (simp add: redirfs_add_path_def Let_def)
  next
    assume a: "info_flags pinfo = REDIRFS_PATH_EXCLUDE \<and> f \<in> set (rpath_rinch (mem s q))"
    with other get have "rfs_path_add_exclude w (rfs_path_get s q) q f = (- EEXIST, rfs_path_get s q)"
      by (simp add: rfs_path_add_exclude_def)
    with a f valid add show ?thesis
      by (simp add: redirfs_add_path_def Let_def)
  qed
qed

text \<open>
  C1. In every state reached from the empty registry by \<^verbatim>\<open>redirfs_add_path\<close>,
  \<^verbatim>\<open>redirfs_rem_path\<close> and \<^verbatim>\<open>redirfs_rem_paths\<close>, no filter is on both chains of a
  registered path; and a registration of \<open>f\<close> with the mode Include on a path that has
  \<open>f\<close> on its exclude chain (or with Exclude while \<open>f\<close> is on the include chain) returns
  \<^verbatim>\<open>-EEXIST\<close> and leaves the list and the chains of every registered path as they were.
\<close>

theorem filter_on_one_chain_only:
  assumes "reachable s"
  shows "(\<forall>a \<in> set (rfs_path_list s).
           set (rpath_rinch (mem s a)) \<inter> set (rpath_rexch (mem s a)) = {}) \<and>
         (\<forall>pinfo q. f \<noteq> 0 \<and> info_mnt pinfo \<noteq> 0 \<and> info_dentry pinfo \<noteq> 0 \<and>
            q = path_list_find (mem s) (rfs_path_list s) (info_mnt pinfo) (info_dentry pinfo) \<and>
            q \<noteq> 0 \<and>
            (info_flags pinfo = REDIRFS_PATH_INCLUDE \<and> f \<in> set (rpath_rexch (mem s q)) \<or>
             info_flags pinfo = REDIRFS_PATH_EXCLUDE \<and> f \<in> set (rpath_rinch (mem s q)))
          \<longrightarrow> fst (redirfs_add_path w s f (Some pinfo)) = Inl (- EEXIST) \<and>
              (\<forall>a \<in> set (rfs_path_list s).
                 rpath_rinch (mem (snd (redirfs_add_path w s f (Some pinfo))) a) = rpath_rinch (mem s a) \<and>
                 rpath_rexch (mem (snd (redirfs_add_path w s f (Some pinfo))) a) = rpath_rexch (mem s a)) \<and>
              rfs_path_list (snd (redirfs_add_path w s f (Some pinfo))) = rfs_path_list s)"
proof -
  from assms have inv: "registry_inv s" using reachable_inv by blast
  note D = registry_invD [OF inv]
  have disj: "\<forall>a \<in> set (rfs_path_list s).
      set (rpath_rinch (mem s a)) \<inter> set (rpath_rexch (mem s a)) = {}"
  proof
    fix a assume "a \<in> set (rfs_path_list s)"
    with D(3) [of a] have "a < brk s" by simp
    from D(4) [OF this] show "set (rpath_rinch (mem s a)) \<inter> set (rpath_rexch (mem s a)) = {}"
      by (simp add: chains_ok_def)
  qed
  have opp: "fst (redirfs_add_path w s f (Some pinfo)) = Inl (- EEXIST) \<and>
      (\<forall>a \<in> set (rfs_path_list s).
         rpath_rinch (mem (snd (redirfs_add_path w s f (Some pinfo))) a) = rpath_rinch (mem s a) \<and>
         rpath_rexch (mem (snd (redirfs_add_path w s f (Some pinfo))) a) = rpath_rexch (mem s a)) \<and>
      rfs_path_list (snd (redirfs_add_path w s f (Some pinfo))) = rfs_path_list s"
    if h: "f \<noteq> 0 \<and> info_mnt pinfo \<noteq> 0 \<and> info_dentry pinfo \<noteq> 0 \<and>
        q = path_list_find (mem s) (rfs_path_list s) (info_mnt pinfo) (info_dentry pinfo) \<and>
        q \<noteq> 0 \<and>
        (info_flags pinfo = REDIRFS_PATH_INCLUDE \<and> f \<in> set (rpath_rexch (mem s q)) \<or>
         info_flags pinfo = REDIRFS_PATH_EXCLUDE \<and> f \<in> set (rpath_rinch (mem s q)))"
    for pinfo q
  proof -
    from h have e: "fst (redirfs_add_path w s f (Some pinfo)) = Inl (- EEXIST)"
      by (intro redirfs_add_path_opposite [OF inv, of f pinfo q]) auto
    obtain r s' where run: "redirfs_add_path w s f (Some pinfo) = (r, s')"
      by (cases "redirfs_add_path w s f (Some pinfo)")
    from inv run have "(\<forall>a \<in> set (rfs_path_list s).
         rpath_rinch (mem s' a) = rpath_rinch (mem s a) \<and>
         rpath_rexch (mem s' a) = rpath_rexch (mem s a)) \<and> rfs_path_list s' = rfs_path_list s"
    proof (cases rule: redirfs_add_path_cases)
      case (failed e)
      with D(3) show ?thesis by auto
    qed (use e run in auto)
    with e run show ?thesis by simp
  qed
  from disj opp show ?thesis by blast
qed

theorem filter_on_one_chain_only_witness:
  "reachable one_path_state \<and>
   set (rpath_rinch (mem one_path_state 1)) \<inter> set (rpath_rexch (mem one_path_state 1)) = {} \<and>
   fst (redirfs_add_path world_ok one_path_state 7 (exclude_info 1 11)) = Inl (- EEXIST) \<and>
   rpath_rinch (mem (snd (redirfs_add_path world_ok one_path_state 7 (exclude_info 1 11))) 1) = [7] \<and>
   rpath_rexch (mem (snd (redirfs_add_path world_ok one_path_state 7 (exclude_info 1 11))) 1) = []"
  using filter_on_one_chain_only [OF reachable_one_path_state, of 7 world_ok]
    reachable_one_path_state one_path_state_fields
  by (simp add: exclude_info_def)












lemma no_call_failed_simps [simp]:
  "no_call_failed w cs [] \<longleftrightarrow> True"
  "no_call_failed w cs (c # t) \<longleftrightarrow> \<not> call_failed w cs c \<and> no_call_failed w (cs @ [c]) t"
  by (simp_all add: no_call_failed_def)






lemma calls_rfs_path_put [simp]: "calls (rfs_path_put s p) = calls s"
  by (simp add: rfs_path_put_def)







text \<open>
  C7. In every state reached from the empty registry, the counter of a filter is the
  number of registered paths that have the filter on a chain. A registration that
  returns a handle raises the counter by one unless that registered path had the filter
  already, and a removal that returns 0 lowers it by one.
\<close>

theorem paths_nr_counts_citing_paths:
  assumes "reachable s"
  shows "paths_nr s g = int (length (filter (cites (mem s) g) (rfs_path_list s))) \<and>
         (\<forall>h. fst (redirfs_add_path w s f info) = Inr h \<longrightarrow>
            paths_nr (snd (redirfs_add_path w s f info)) f =
              paths_nr s f + (if h \<in> set (rfs_path_list s) \<and> cites (mem s) f h then 0 else 1)) \<and>
         (fst (redirfs_rem_path w s f p) = 0 \<longrightarrow>
            paths_nr (snd (redirfs_rem_path w s f p)) f = paths_nr s f - 1)"
proof -
  from assms have inv: "registry_inv s" and nr: "nr_ok s g" using reachable_inv by blast+
  note D = registry_invD [OF inv]
  obtain r s' where run: "redirfs_add_path w s f info = (r, s')"
    by (cases "redirfs_add_path w s f info")
  from inv run have "\<forall>h. r = Inr h \<longrightarrow>
      paths_nr s' f = paths_nr s f + (if h \<in> set (rfs_path_list s) \<and> cites (mem s) f h then 0 else 1)"
  proof (cases rule: redirfs_add_path_cases)
    case (created pinfo)
    with D(3) [of "brk s"] show ?thesis by auto
  qed (auto simp add: cites_def split: if_splits)
  moreover
  obtain rv s2 where rem: "redirfs_rem_path w s f p = (rv, s2)"
    by (cases "redirfs_rem_path w s f p")
  from redirfs_rem_path_effect [OF rem] have "rv = 0 \<longrightarrow> paths_nr s2 f = paths_nr s f - 1"
    by simp
  ultimately show ?thesis using nr run rem by (simp add: nr_ok_def)
qed

theorem paths_nr_counts_citing_paths_witness:
  "reachable one_path_state \<and>
   paths_nr one_path_state 7 = int (length (filter (cites (mem one_path_state) 7) (rfs_path_list one_path_state))) \<and>
   paths_nr one_path_state 7 = 1 \<and>
   fst (redirfs_add_path world_ok one_path_state 7 (include_info 1 12)) = Inr 2 \<and>
   paths_nr (snd (redirfs_add_path world_ok one_path_state 7 (include_info 1 12))) 7 = 2 \<and>
   fst (redirfs_rem_path world_ok one_path_state 7 1) = 0 \<and>
   paths_nr (snd (redirfs_rem_path world_ok one_path_state 7 1)) 7 = 0"
proof -
  have a: "fst (redirfs_add_path world_ok one_path_state 7 (include_info 1 12)) = Inr 2"
    by (simp add: one_path_state_def path_defs world_ok_def include_info_def init_state_def Let_def)
  have r: "fst (redirfs_rem_path world_ok one_path_state 7 1) = 0"
    by (simp add: one_path_state_def path_defs world_ok_def include_info_def init_state_def Let_def)
  from paths_nr_counts_citing_paths [OF reachable_one_path_state, of 7 world_ok 7 "include_info 1 12" 1]
  show ?thesis
    using a r reachable_one_path_state one_path_state_fields by simp
qed

lemma path_list_find_cong:
  "(\<And>a. a \<in> set l \<Longrightarrow> m' a = m a) \<Longrightarrow> path_list_find m' l mnt d = path_list_find m l mnt d"
  by (induction l) auto

lemma path_list_find_id_cases:
  "path_list_find_id m l i = 0 \<or> path_list_find_id m l i \<in> set l"
  by (induction l) auto

lemma path_list_find_id_none:
  "(\<And>a. a \<in> set l \<Longrightarrow> rpath_id (m a) \<noteq> i) \<Longrightarrow> path_list_find_id m l i = 0"
  by (induction l) auto

text \<open>
  C5, as the code has it. On a well-formed registry without a path for the mount and
  entry, a registration that returns a handle followed by a removal that returns 0
  leaves both chains of the path empty and takes the path off the list, which is
  again the list before the registration: the lookup by mount and entry finds nothing,
  no lookup by id returns the handle, and the lookup by the id of the path returns
  \<^verbatim>\<open>NULL\<close> when no registered path has that id.
\<close>

theorem add_then_rem_path_round_trip:
  assumes "registry_inv s"
    and "path_list_find (mem s) (rfs_path_list s) (info_mnt pinfo) (info_dentry pinfo) = 0"
    and "redirfs_add_path w s f (Some pinfo) = (Inr h, s1)"
    and "redirfs_rem_path w' s1 f h = (0, s2)"
  shows "empty_chains (mem s2 h) \<and> h \<notin> set (rfs_path_list s2) \<and>
         rfs_path_list s2 = rfs_path_list s \<and>
         path_list_find (mem s2) (rfs_path_list s2) (info_mnt pinfo) (info_dentry pinfo) = 0 \<and>
         (\<forall>i. fst (redirfs_get_path_id s2 i) \<noteq> h) \<and>
         ((\<forall>a \<in> set (rfs_path_list s2). rpath_id (mem s2 a) \<noteq> rpath_id (mem s2 h)) \<longrightarrow>
            fst (redirfs_get_path_id s2 (rpath_id (mem s2 h))) = 0)"
proof -
  note D = registry_invD [OF assms(1)]
  have fresh: "brk s \<notin> set (rfs_path_list s)" using D(3) [of "brk s"] by auto
  from assms(1,3) have c: "h = brk s \<and> rfs_path_list s1 = rfs_path_list s @ [brk s] \<and>
      (\<forall>a. a \<noteq> brk s \<longrightarrow> mem s1 a = mem s a) \<and>
      (rpath_rinch (mem s1 h) = [f] \<and> rpath_rexch (mem s1 h) = [] \<or>
       rpath_rinch (mem s1 h) = [] \<and> rpath_rexch (mem s1 h) = [f])"
  proof (cases rule: redirfs_add_path_cases)
    case (noop p pinfo')
    with assms(2) D(3) [of p] show ?thesis by auto
  next
    case (added p pinfo')
    with assms(2) D(3) [of p] show ?thesis by auto
  next
    case (created pinfo')
    then show ?thesis by auto
  qed simp
  note E = redirfs_rem_path_effect [OF assms(4)]
  from E c have em: "empty_chains (mem s2 h)"
    by (auto simp add: empty_chains_def split: if_splits)
  with E c fresh have list: "rfs_path_list s2 = rfs_path_list s"
    by (simp add: remove1_snoc)
  with c fresh have out: "h \<notin> set (rfs_path_list s2)" by simp
  have h0: "h \<noteq> 0" using E by simp
  have same: "mem s2 a = mem s a" if "a \<in> set (rfs_path_list s)" for a
  proof -
    from that fresh c have "a \<noteq> h" by auto
    with E c show ?thesis by simp
  qed
  have find: "path_list_find (mem s2) (rfs_path_list s2) (info_mnt pinfo) (info_dentry pinfo) = 0"
    using assms(2) list path_list_find_cong [of "rfs_path_list s" "mem s2" "mem s", OF same]
    by simp
  have ids: "fst (redirfs_get_path_id s2 i) \<noteq> h" for i
    using path_list_find_id_cases [of "mem s2" "rfs_path_list s2" i] out h0
    by (auto simp add: redirfs_get_path_id_def rfs_path_find_id_def Let_def)
  have none: "fst (redirfs_get_path_id s2 (rpath_id (mem s2 h))) = 0"
    if "\<forall>a \<in> set (rfs_path_list s2). rpath_id (mem s2 a) \<noteq> rpath_id (mem s2 h)"
    using that path_list_find_id_none [of "rfs_path_list s2" "mem s2" "rpath_id (mem s2 h)"]
    by (simp add: redirfs_get_path_id_def rfs_path_find_id_def Let_def)
  from em out list find ids none show ?thesis by blast
qed

lemma round_trip_eval:
  "fst (redirfs_add_path world_ok init_state 7 (include_info 1 11)) = Inr 1 \<and>
   fst (redirfs_rem_path world_ok one_path_state 7 1) = 0"
  by (simp add: one_path_state_def path_defs world_ok_def include_info_def init_state_def Let_def)

theorem add_then_rem_path_round_trip_witness:
  "registry_inv init_state \<and>
   path_list_find (mem init_state) (rfs_path_list init_state) 1 11 = 0 \<and>
   fst (redirfs_add_path world_ok init_state 7 (include_info 1 11)) = Inr 1 \<and>
   fst (redirfs_rem_path world_ok one_path_state 7 1) = 0 \<and>
   empty_chains (mem (snd (redirfs_rem_path world_ok one_path_state 7 1)) 1) \<and>
   rfs_path_list (snd (redirfs_rem_path world_ok one_path_state 7 1)) = [] \<and>
   fst (redirfs_get_path_id (snd (redirfs_rem_path world_ok one_path_state 7 1))
          (rpath_id (mem (snd (redirfs_rem_path world_ok one_path_state 7 1)) 1))) = 0"
proof -
  let ?pinfo = "\<lparr>info_dentry = 11, info_mnt = 1, info_flags = REDIRFS_PATH_INCLUDE\<rparr>"
  let ?q = "redirfs_rem_path world_ok one_path_state 7 1"
  have nf: "path_list_find (mem init_state) (rfs_path_list init_state) (info_mnt ?pinfo) (info_dentry ?pinfo) = 0"
    by (simp add: init_state_def)
  from round_trip_eval have add: "redirfs_add_path world_ok init_state 7 (Some ?pinfo) = (Inr 1, one_path_state)"
    by (simp add: prod_eq_iff one_path_state_def include_info_def)
  from round_trip_eval have rem: "?q = (0, snd ?q)" by (simp add: prod_eq_iff)
  have l: "rfs_path_list init_state = []" by (simp add: init_state_def)
  note T = add_then_rem_path_round_trip [OF registry_inv_init nf add rem]
  from T l have "empty_chains (mem (snd ?q) 1)" "rfs_path_list (snd ?q) = []"
    "fst (redirfs_get_path_id (snd ?q) (rpath_id (mem (snd ?q) 1))) = 0"
    by simp_all
  then show ?thesis using registry_inv_init nf round_trip_eval by simp
qed

text \<open>
  C5 as stated fails when the removal itself fails: with a root that refuses
  \<^verbatim>\<open>rfs_root_rem_include\<close>, the removal returns the error, filter 7 stays on the include
  chain of the path, the path stays on the list and the lookup of its id returns it.
\<close>

theorem add_then_rem_path_counterexample:
  "path_list_find (mem init_state) (rfs_path_list init_state) 1 11 = 0 \<and>
   fst (redirfs_add_path world_ok init_state 7 (include_info 1 11)) = Inr 1 \<and>
   one_path_state = snd (redirfs_add_path world_ok init_state 7 (include_info 1 11)) \<and>
   rem_fails_result = redirfs_rem_path world_rem_fails one_path_state 7 1 \<and>
   fst rem_fails_result = - 5 \<and>
   rpath_rinch (mem (snd rem_fails_result) 1) = [7] \<and>
   rfs_path_list (snd rem_fails_result) = [1] \<and>
   fst (redirfs_get_path_id (snd rem_fails_result) (rpath_id (mem (snd rem_fails_result) 1))) = 1"
  by (simp add: rem_fails_result_def one_path_state_def path_defs world_ok_def world_rem_fails_def
      include_info_def init_state_def Let_def redirfs_get_path_id_def rfs_path_find_id_def)

lemma reuse_result_eval:
  "(fst reuse_result, map (\<lambda>a. (a, rpath_id (mem (snd reuse_result) a))) (rfs_path_list (snd reuse_result))) =
   (Inr 4, [(2, 1), (3, 0), (4, 1)])"
  by (simp add: reuse_result_def reuse_state_def path_defs world_ok_def include_info_def init_state_def Let_def)

lemma map_eq_3:
  "map g l = [x, y, z] \<Longrightarrow> \<exists>a b c. l = [a, b, c] \<and> g a = x \<and> g b = y \<and> g c = z"
  by (cases l; simp; cases "tl l"; simp; cases "tl (tl l)"; simp)

text \<open>
  C4. The id given to a new path is meant to be the smallest id that no registered
  path uses. In \<open>reuse_state\<close> the list holds the objects 2 and 3 with the ids 1 and 0,
  in this order; the single walk of \<^verbatim>\<open>rfs_path_get_id\<close> passes the id 1 before it has
  counted up to 1, and returns 1. The path for dentry 14 is created at address 4 with
  the id 1, which the registered path at address 2 still has.
\<close>

theorem rfs_path_get_id_returns_used_id:
  "fst reuse_result = Inr 4 \<and> rfs_path_list (snd reuse_result) = [2, 3, 4] \<and>
   rpath_id (mem (snd reuse_result) 2) = 1 \<and> rpath_id (mem (snd reuse_result) 4) = 1"
proof -
  from reuse_result_eval have f: "fst reuse_result = Inr 4"
    and m: "map (\<lambda>a. (a, rpath_id (mem (snd reuse_result) a))) (rfs_path_list (snd reuse_result)) =
       [(2, 1), (3, 0), (4, 1)]"
    by simp_all
  from map_eq_3 [OF m] f show ?thesis by auto
qed

text \<open>
  C8. For a filter that no path cites, the array of \<^verbatim>\<open>redirfs_get_paths\<close> is empty, the
  loop of \<^verbatim>\<open>redirfs_rem_paths\<close> does not run and the function returns its local \<^verbatim>\<open>rv\<close>,
  which was never assigned: on the empty registry the result is whatever the stack
  held, here 99, and not 0.
\<close>

theorem redirfs_rem_paths_returns_unset_rv:
  "redirfs_rem_paths world_ok init_state 7 99 = (99, init_state)"
  by (simp add: redirfs_rem_paths_def redirfs_get_paths_def kalloc_def world_ok_def init_state_def)

text \<open>
  C9. \<^verbatim>\<open>redirfs_get_paths_root\<close> tests the chains of the root, not those of each path
  (as \<^verbatim>\<open>redirfs_get_paths\<close> does): asked for the paths of filter 5 under root 9 it
  returns both paths of the root, although the path at address 2 has only filter 6 on
  its chains.
\<close>

theorem redirfs_get_paths_root_returns_uncited_path:
  "rfs_path_list bind_state = [1, 2] \<and>
   rpath_rroot (mem bind_state 1) = 9 \<and> rpath_rroot (mem bind_state 2) = 9 \<and>
   rpath_rinch (mem bind_state 1) = [5] \<and> rpath_rexch (mem bind_state 1) = [] \<and>
   rpath_rinch (mem bind_state 2) = [6] \<and> rpath_rexch (mem bind_state 2) = [] \<and>
   fst (redirfs_get_paths_root world_bind bind_state 5 9) = Inr [1, 2] \<and>
   fst (redirfs_get_paths world_bind bind_state 5) = Inr [1]"
  by (simp add: bind_state_def path_defs world_ok_def world_bind_def include_info_def init_state_def
      Let_def redirfs_get_paths_root_def redirfs_get_paths_def)

text \<open>
  C10. \<^verbatim>\<open>rfs_fsrename\<close> reads \<^verbatim>\<open>rinode->rinfo->rchain\<close> without testing the result of
  \<^verbatim>\<open>rfs_inode_find(new_dir)\<close> (the result of \<^verbatim>\<open>rfs_dentry_find\<close> is tested): when the new
  parent has no record and the two parents differ, the call faults.
\<close>

theorem rfs_fsrename_faults_without_inode_record:
  "w_inode_find world_ok (calls init_state) 11 = None \<and>
   rfs_fsrename world_ok init_state 10 20 11 = (Inl NULL_deref, init_state)"
  by (simp add: rfs_fsrename_def world_ok_def)



























lemma detached_simps [simp]:
  "detached [] = []" "detached (c # cs) = detach_of c @ detached cs"
  "detached (xs @ ys) = detached xs @ detached ys"
  by (simp_all add: detached_def)

lemma attached_simps [simp]:
  "attached [] = []" "attached (c # cs) = attach_of c @ attached cs"
  "attached (xs @ ys) = attached xs @ attached ys"
  by (simp_all add: attached_def)











lemmas rename_defs = rfs_fsrename_def rfs_fsrename_rem_def rfs_fsrename_rem_dentry_def
  rfs_fsrename_set_def rfs_fsrename_add_def rfs_fsrename_add_dentry_def fsrename_rroot_src_def
  fsrename_rroot_dst_def rfs_chain_diff_def rfs_chain_rem_def rfs_chain_add_def kalloc_def
  ext_call_def root_of_def world_ok_def Let_def



text \<open>
  C3, as the code has it. \<^verbatim>\<open>rfs_fsrename\<close> returns 0 and leaves the whole state as it
  was, with no collaborator called, when the two parent directories are the same, or
  when the new parent has its inode record and the root of the moved entry (the root of
  its own dentry record; none without a record or without a chain) is the root of the
  new parent, both being none included.
\<close>

theorem rfs_fsrename_same_root_noop:
  assumes "old_dir = new_dir \<or>
     (\<exists>rinode. w_inode_find w (calls s) new_dir = Some rinode \<and>
        fsrename_rroot_src (w_dentry_find w (calls s) old_dentry) = fsrename_rroot_dst rinode)"
  shows "rfs_fsrename w s old_dir old_dentry new_dir = (Inr 0, s)"
  using assms by (auto simp add: rfs_fsrename_def Let_def)

theorem rfs_fsrename_same_root_noop_witness:
  "w_inode_find world_nested (calls init_state) 11 = Some \<lparr>rinfo_rchain = [1], rinfo_rroot = 100\<rparr> \<and>
   fsrename_rroot_src (w_dentry_find world_nested (calls init_state) 30) =
     fsrename_rroot_dst \<lparr>rinfo_rchain = [1], rinfo_rroot = 100\<rparr> \<and>
   rfs_fsrename world_nested init_state 10 30 11 = (Inr 0, init_state) \<and>
   rfs_fsrename world_nested init_state 10 20 10 = (Inr 0, init_state)"
proof -
  have a: "w_inode_find world_nested (calls init_state) 11 = Some \<lparr>rinfo_rchain = [1], rinfo_rroot = 100\<rparr>"
    by (simp add: world_nested_def)
  have b: "fsrename_rroot_src (w_dentry_find world_nested (calls init_state) 30) =
     fsrename_rroot_dst \<lparr>rinfo_rchain = [1], rinfo_rroot = 100\<rparr>"
    by (simp add: world_nested_def fsrename_rroot_src_def fsrename_rroot_dst_def)
  from a b have "rfs_fsrename world_nested init_state 10 30 11 = (Inr 0, init_state)"
    by (intro rfs_fsrename_same_root_noop) blast
  moreover have "rfs_fsrename world_nested init_state 10 20 10 = (Inr 0, init_state)"
    by (intro rfs_fsrename_same_root_noop) simp
  ultimately show ?thesis using a b by simp
qed

text \<open>
  C3 as stated fails when the moved entry does not have the root of its parent. In
  \<open>world_nested\<close> the old parent (inode 10) and the new parent (inode 11) have the same
  root, 100, with filter 1; the moved entry 20 carries no chain, so that the source
  root is none and the destination root is 100. The rename attaches filter 1 to the
  moved entry and resets its record to root 100.
\<close>

theorem rfs_fsrename_same_parent_root_counterexample:
  "w_inode_find world_nested (calls init_state) 10 = Some \<lparr>rinfo_rchain = [1], rinfo_rroot = 100\<rparr> \<and>
   w_inode_find world_nested (calls init_state) 11 = Some \<lparr>rinfo_rchain = [1], rinfo_rroot = 100\<rparr> \<and>
   fsrename_rroot_dst \<lparr>rinfo_rchain = [1], rinfo_rroot = 100\<rparr> = 100 \<and>
   rfs_fsrename world_nested init_state 10 20 11 =
     (Inr 0, init_state\<lparr>calls := [C_info_add 20 100 [1] 1, C_info_reset 20 100]\<rparr>)"
  by (simp add: rename_defs world_nested_def init_state_def)

end
